theory Spec2Isabelle
  imports Complex_Main "HOL-Library.AList"
begin

section \<open>Data model\<close>

text \<open>
  The face registry of the photo booth (class \<open>FaceRegistry\<close>) and the smoothing step
  of \<open>applySmoothInterpolation\<close>, embedded as pure functions with the registry state and
  the smoothing cache passed explicitly.

  JavaScript numbers are modelled by the reals (exact arithmetic, no rounding). The one
  division of the registry whose divisor can be zero (\<open>calculateSimilarity\<close>) is written
  out with its JavaScript result, \<open>None\<close> standing for \<open>NaN\<close>. A landmark is a point with
  two coordinates; an entry of a landmark array that is missing (\<open>undefined\<close>, \<open>null\<close>, or
  an index past the end of the array) is \<open>None\<close>, and so is a landmark array that is
  itself \<open>null\<close> or \<open>undefined\<close>.
\<close>

record point =
  px :: real
  py :: real

type_synonym landmarks = "point option list"

text \<open>\<open>landmarks[i]\<close>: reading past the end of a JavaScript array gives \<open>undefined\<close>.\<close>

definition landmark_at :: "landmarks \<Rightarrow> nat \<Rightarrow> point option" where
  "landmark_at lms i = (if i < length lms then lms ! i else None)"

text \<open>The key \<open>`face_${n}`\<close> of a tracked face, built from the counter value \<open>n\<close>.\<close>

datatype face_id = Face nat

text \<open>
  The fields shared by a detection, a tracked face and a result entry. The field \<open>size\<close>
  of the source is \<open>face_size\<close> here.
\<close>

record face =
  landmarks :: "landmarks option"
  center :: point
  face_size :: real
  rotation :: real

record detection = face +
  originalIndex :: nat

record tagged = face +
  faceId :: face_id
  maskNumber :: nat

record trackedFace = tagged +
  framesMissing :: nat
  firstSeen :: int
  lastSeen :: int

text \<open>
  A result entry \<open>{...newFace, faceId, maskNumber}\<close>; its field \<open>originalIndex\<close> is
  \<open>detectionIndex\<close> here.
\<close>

record result = tagged +
  detectionIndex :: nat

text \<open>
  The registry object. \<open>trackedFaces\<close> is a JavaScript \<open>Map\<close>, which iterates in
  insertion order: an association list, with \<open>AList.update\<close> for \<open>Map.set\<close> (replace in
  place, or append a new key) and \<open>AList.delete\<close> for \<open>Map.delete\<close>.
\<close>

record registry =
  trackedFaces :: "(face_id \<times> trackedFace) list"
  nextFaceId :: nat
  maxFaces :: nat
  matchThreshold :: real
  maxFramesMissing :: nat
  maxFaceAge :: int

definition new_FaceRegistry :: registry where
  "new_FaceRegistry =
     \<lparr>trackedFaces = [], nextFaceId = 1, maxFaces = 5, matchThreshold = 0.15,
      maxFramesMissing = 1, maxFaceAge = 2000\<rparr>"

section \<open>Geometric feature extraction\<close>

text \<open>
  Reading a property of \<open>undefined\<close> throws a \<open>TypeError\<close>. Each extractor is the body of
  its \<open>try\<close> block, returning either the error or the value, wrapped by the guard in front
  of the block and the \<open>catch\<close> clause behind it.
\<close>

datatype js_error = TypeError

text \<open>
  \<open>Math.atan2\<close> of the JavaScript library on finite numbers (the sign of a zero is not
  modelled).
\<close>

definition atan2 :: "real \<Rightarrow> real \<Rightarrow> real" where
  "atan2 dy dx =
     (if 0 < dx then arctan (dy / dx)
      else if dx < 0 then (if 0 \<le> dy then arctan (dy / dx) + pi else arctan (dy / dx) - pi)
      else if 0 < dy then pi / 2
      else if dy < 0 then - (pi / 2)
      else 0)"

definition midpoint_of :: "point \<Rightarrow> point \<Rightarrow> point" where
  "midpoint_of a b = \<lparr>px = (px a + px b) / 2, py = (py a + py b) / 2\<rparr>"

definition calculateFaceCenter_try :: "landmarks \<Rightarrow> js_error + point option" where
  "calculateFaceCenter_try lms =
     (case (landmark_at lms 33, landmark_at lms 133, landmark_at lms 362, landmark_at lms 263) of
        (Some leftEyeLeft, Some leftEyeRight, Some rightEyeLeft, Some rightEyeRight) \<Rightarrow>
          (let leftEyeCenter = midpoint_of leftEyeLeft leftEyeRight;
               rightEyeCenter = midpoint_of rightEyeLeft rightEyeRight;
               eyeCenter = midpoint_of leftEyeCenter rightEyeCenter;
               eyeToNoseDistance =
                 (case landmark_at lms 1 of
                    Some noseTip \<Rightarrow> py noseTip - py eyeCenter
                  | None \<Rightarrow> 0.03)
           in Inr (Some \<lparr>px = px eyeCenter, py = py eyeCenter + eyeToNoseDistance * 0.6\<rparr>))
      | _ \<Rightarrow> Inr None)"

definition calculateFaceCenter :: "landmarks option \<Rightarrow> point option" where
  "calculateFaceCenter l =
     (case l of
        None \<Rightarrow> None
      | Some lms \<Rightarrow>
          if length lms = 0 then None
          else (case calculateFaceCenter_try lms of Inl error \<Rightarrow> None | Inr c \<Rightarrow> c))"

definition calculateFaceSize_try :: "landmarks \<Rightarrow> js_error + real" where
  "calculateFaceSize_try lms =
     (case (landmark_at lms 10, landmark_at lms 152, landmark_at lms 234, landmark_at lms 454) of
        (Some topPoint, Some bottomPoint, Some leftPoint, Some rightPoint) \<Rightarrow>
          (let height = \<bar>py bottomPoint - py topPoint\<bar>;
               width = \<bar>px rightPoint - px leftPoint\<bar>
           in Inr (max height width))
      | _ \<Rightarrow> Inr 0.2)"

definition calculateFaceSize :: "landmarks option \<Rightarrow> real" where
  "calculateFaceSize l =
     (case l of
        None \<Rightarrow> 0.2
      | Some lms \<Rightarrow>
          if length lms = 0 then 0.2
          else (case calculateFaceSize_try lms of Inl error \<Rightarrow> 0.2 | Inr s \<Rightarrow> s))"

text \<open>
  \<open>calculateHeadRotation\<close> reads \<open>.x\<close> and \<open>.y\<close> of the four eye corners without checking
  them first: a missing corner throws inside the \<open>try\<close> block.
\<close>

definition calculateHeadRotation_try :: "landmarks \<Rightarrow> js_error + real" where
  "calculateHeadRotation_try lms =
     (case (landmark_at lms 33, landmark_at lms 133, landmark_at lms 362, landmark_at lms 263) of
        (Some leftEyeLeft, Some leftEyeRight, Some rightEyeLeft, Some rightEyeRight) \<Rightarrow>
          (let leftEyeCenter = midpoint_of leftEyeLeft leftEyeRight;
               rightEyeCenter = midpoint_of rightEyeLeft rightEyeRight;
               deltaX = px rightEyeCenter - px leftEyeCenter;
               deltaY = py rightEyeCenter - py leftEyeCenter
           in Inr (atan2 deltaY deltaX * (180 / pi)))
      | _ \<Rightarrow> Inl TypeError)"

definition calculateHeadRotation :: "landmarks option \<Rightarrow> real" where
  "calculateHeadRotation l =
     (case l of
        None \<Rightarrow> 0
      | Some lms \<Rightarrow>
          if length lms = 0 then 0
          else (case calculateHeadRotation_try lms of Inl error \<Rightarrow> 0 | Inr r \<Rightarrow> r))"

section \<open>The identity registry\<close>

definition calculateDistance :: "'a face_scheme \<Rightarrow> 'b face_scheme \<Rightarrow> real" where
  "calculateDistance face1 face2 =
     (let dx = px (center face1) - px (center face2);
          dy = py (center face1) - py (center face2)
      in sqrt (dx * dx + dy * dy))"

text \<open>
  \<open>Math.max(0, 1 - n / d)\<close> for a numerator \<open>n \<ge> 0\<close> (a square root or an absolute value
  at both uses): with \<open>d = 0\<close> the quotient is \<open>NaN\<close> for \<open>n = 0\<close>, and the result is
  \<open>NaN\<close>; it is \<open>Infinity\<close> for \<open>n > 0\<close>, and the result is \<open>0\<close>.
\<close>

definition unit_score :: "real \<Rightarrow> real \<Rightarrow> real option" where
  "unit_score n d =
     (if d = 0 then (if n = 0 then None else Some 0)
      else Some (max 0 (1 - n / d)))"

definition calculateSimilarity :: "registry \<Rightarrow> 'a face_scheme \<Rightarrow> 'b face_scheme \<Rightarrow> real option" where
  "calculateSimilarity reg face1 face2 =
     (let distance = calculateDistance face1 face2 in
      case unit_score distance (matchThreshold reg) of
        None \<Rightarrow> None
      | Some distanceScore \<Rightarrow>
          (case unit_score \<bar>face_size face1 - face_size face2\<bar>
                           (max (face_size face1) (face_size face2)) of
             None \<Rightarrow> None
           | Some sizeScore \<Rightarrow> Some ((distanceScore * 0.7) + (sizeScore * 0.3))))"

text \<open>
  The loop of \<open>findBestMatch\<close> over the entries of the map, in insertion order, with
  \<open>bestMatch\<close> and \<open>bestScore\<close> as accumulator. A comparison with \<open>NaN\<close> is false.
\<close>

type_synonym match = "face_id \<times> trackedFace \<times> real"

fun findBestMatch_loop ::
  "registry \<Rightarrow> detection \<Rightarrow> (face_id \<times> trackedFace) list \<Rightarrow> match option \<times> real \<Rightarrow> match option \<times> real"
where
  "findBestMatch_loop reg newFace [] acc = acc"
| "findBestMatch_loop reg newFace ((fid, tracked) # rest) (bestMatch, bestScore) =
     (case calculateSimilarity reg newFace tracked of
        None \<Rightarrow> findBestMatch_loop reg newFace rest (bestMatch, bestScore)
      | Some similarity \<Rightarrow>
          if similarity > bestScore \<and> similarity > 0.6
          then findBestMatch_loop reg newFace rest (Some (fid, tracked, similarity), similarity)
          else findBestMatch_loop reg newFace rest (bestMatch, bestScore))"

definition findBestMatch :: "registry \<Rightarrow> detection \<Rightarrow> match option" where
  "findBestMatch reg newFace = fst (findBestMatch_loop reg newFace (trackedFaces reg) (None, 0))"

definition usedMasks :: "registry \<Rightarrow> nat set" where
  "usedMasks reg = set (map (\<lambda>(fid, tracked). maskNumber tracked) (trackedFaces reg))"

definition getNextMaskNumber :: "registry \<Rightarrow> nat" where
  "getNextMaskNumber reg =
     (case find (\<lambda>i. i \<notin> usedMasks reg) [1 ..< maxFaces reg + 1] of
        Some i \<Rightarrow> i
      | None \<Rightarrow> 1)"

text \<open>
  The conversion at the head of \<open>processDetections\<close>: \<open>map\<close> with the index, then the
  filter on a non-null center. A detection that passes the filter has a center, which is
  why \<open>center\<close> is a point and not an optional point.
\<close>

definition toDetection :: "nat \<times> landmarks option \<Rightarrow> detection option" where
  "toDetection e =
     (case e of (index, l) \<Rightarrow>
        (case calculateFaceCenter l of
           None \<Rightarrow> None
         | Some c \<Rightarrow>
             Some \<lparr>landmarks = l, center = c, face_size = calculateFaceSize l,
                   rotation = calculateHeadRotation l, originalIndex = index\<rparr>))"

definition newDetections :: "landmarks option list \<Rightarrow> detection list" where
  "newDetections currentFaces = List.map_filter toDetection (enumerate 0 currentFaces)"

definition tag :: "detection \<Rightarrow> face_id \<Rightarrow> nat \<Rightarrow> result" where
  "tag newFace fid maskNo =
     \<lparr>landmarks = landmarks newFace, center = center newFace, face_size = face_size newFace,
      rotation = rotation newFace, faceId = fid, maskNumber = maskNo,
      detectionIndex = originalIndex newFace\<rparr>"

text \<open>
  The state of the matching loop: the registry, the results pushed so far and
  \<open>matchedFaceIds\<close>. All reads of \<open>Date.now()\<close> within one call are taken to return the
  same value \<open>now\<close>.
\<close>

type_synonym loop_state = "registry \<times> result list \<times> face_id list"

definition matchStep :: "int \<Rightarrow> loop_state \<Rightarrow> detection \<Rightarrow> loop_state" where
  "matchStep now st newFace =
     (case st of (reg, results, matchedFaceIds) \<Rightarrow>
        (case findBestMatch reg newFace of
           Some (fid, tracked, score) \<Rightarrow>
             (reg\<lparr>trackedFaces :=
                    AList.update fid
                      (tracked\<lparr>landmarks := landmarks newFace, center := center newFace,
                               face_size := face_size newFace, rotation := rotation newFace,
                               framesMissing := 0, lastSeen := now\<rparr>)
                      (trackedFaces reg)\<rparr>,
              results @ [tag newFace fid (maskNumber tracked)],
              fid # matchedFaceIds)
         | None \<Rightarrow>
             (let maskNo = getNextMaskNumber reg;
                  fid = Face (nextFaceId reg)
              in (reg\<lparr>nextFaceId := nextFaceId reg + 1,
                      trackedFaces :=
                        AList.update fid
                          \<lparr>landmarks = landmarks newFace, center = center newFace,
                           face_size = face_size newFace, rotation = rotation newFace,
                           faceId = fid, maskNumber = maskNo,
                           framesMissing = 0, firstSeen = now, lastSeen = now\<rparr>
                          (trackedFaces reg)\<rparr>,
                  results @ [tag newFace fid maskNo],
                  matchedFaceIds))))"

definition matchLoop :: "int \<Rightarrow> registry \<Rightarrow> detection list \<Rightarrow> loop_state" where
  "matchLoop now reg ds = foldl (matchStep now) (reg, [], []) ds"

text \<open>
  The clean-up loop: a face not matched in this call has its \<open>framesMissing\<close> counter
  incremented; \<open>facesToRemove\<close> collects the keys pushed by the two tests, in order.
\<close>

definition countMissing :: "face_id list \<Rightarrow> face_id \<times> trackedFace \<Rightarrow> face_id \<times> trackedFace" where
  "countMissing matchedFaceIds e =
     (case e of (fid, tracked) \<Rightarrow>
        if fid \<notin> set matchedFaceIds
        then (fid, tracked\<lparr>framesMissing := framesMissing tracked + 1\<rparr>)
        else (fid, tracked))"

definition toRemove :: "registry \<Rightarrow> int \<Rightarrow> face_id list \<Rightarrow> face_id \<times> trackedFace \<Rightarrow> face_id list" where
  "toRemove reg currentTime matchedFaceIds e =
     (case e of (fid, tracked) \<Rightarrow>
        (if fid \<notin> set matchedFaceIds \<and> framesMissing tracked > maxFramesMissing reg
         then [fid] else [])
        @ (if currentTime - lastSeen tracked > maxFaceAge reg then [fid] else []))"

definition cleanup :: "int \<Rightarrow> registry \<Rightarrow> face_id list \<Rightarrow> registry" where
  "cleanup currentTime reg matchedFaceIds =
     (let counted = map (countMissing matchedFaceIds) (trackedFaces reg);
          facesToRemove = concat (map (toRemove reg currentTime matchedFaceIds) counted)
      in reg\<lparr>trackedFaces := fold AList.delete facesToRemove counted\<rparr>)"

definition processDetections ::
  "registry \<Rightarrow> int \<Rightarrow> landmarks option list \<Rightarrow> registry \<times> result list"
where
  "processDetections reg now currentFaces =
     (case matchLoop now reg (newDetections currentFaces) of
        (reg1, results, matchedFaceIds) \<Rightarrow>
          (let reg2 = cleanup now reg1 matchedFaceIds
           in if length currentFaces = 0
              then (reg2\<lparr>trackedFaces := []\<rparr>, [])
              else (reg2, results)))"

text \<open>The second \<open>reset\<close> of the class, which replaces the first.\<close>

definition reset :: "registry \<Rightarrow> registry" where
  "reset reg = reg\<lparr>trackedFaces := [], nextFaceId := 1\<rparr>"

text \<open>A session: the calls of \<open>processDetections\<close> in order, each with its clock value.\<close>

type_synonym frame = "int \<times> landmarks option list"

fun run :: "registry \<Rightarrow> frame list \<Rightarrow> registry" where
  "run reg [] = reg"
| "run reg ((now, currentFaces) # rest) = run (fst (processDetections reg now currentFaces)) rest"

text \<open>
  No call of the session leaves its matching loop with more tracked faces than \<open>maxFaces\<close>
  (the faces about to expire included): the fallback of \<open>getNextMaskNumber\<close> is never
  reached with all mask numbers taken.
\<close>

fun within_capacity :: "registry \<Rightarrow> frame list \<Rightarrow> bool" where
  "within_capacity reg [] = True"
| "within_capacity reg ((now, currentFaces) # rest) =
     (length (trackedFaces (fst (matchLoop now reg (newDetections currentFaces)))) \<le> maxFaces reg
      \<and> within_capacity (fst (processDetections reg now currentFaces)) rest)"

text \<open>The face with key \<open>i\<close> is matched by no detection in any call of the session.\<close>

fun unmatched_in :: "face_id \<Rightarrow> registry \<Rightarrow> frame list \<Rightarrow> bool" where
  "unmatched_in i reg [] = True"
| "unmatched_in i reg ((now, currentFaces) # rest) =
     (i \<notin> set (snd (snd (matchLoop now reg (newDetections currentFaces))))
      \<and> unmatched_in i (fst (processDetections reg now currentFaces)) rest)"

section \<open>Smoothing and projection\<close>

text \<open>
  The part of \<open>applySmoothInterpolation\<close> behind the call of \<open>processDetections\<close>. The
  geometry of the canvas rectangle and of the video is an argument. The frame loop calls
  only with positive video dimensions; the quotients below are those of the source when
  the divisors are not zero. Every entry returned by \<open>processDetections\<close> has a center, so
  the branch \<open>if (!faceCenter) return null\<close> and the filter behind the \<open>map\<close> never drop
  an entry; \<open>videoScale\<close> and the logging are not used by the result.
\<close>

record geometry =
  videoWidth :: real
  videoHeight :: real
  rectWidth :: real
  rectHeight :: real

text \<open>An entry of \<open>prevFaceData\<close>, and a smoothed face (the same fields and the mask number).\<close>

record pose =
  pose_faceId :: face_id
  pose_x :: real
  pose_y :: real
  pose_rotation :: real
  pose_size :: real

record smoothFace = pose +
  pose_maskNumber :: nat

definition lerp :: "real \<Rightarrow> real \<Rightarrow> real \<Rightarrow> real" where
  "lerp a b t = a + (b - a) * t"

definition smoothingFactor :: real where
  "smoothingFactor = 0.2"

text \<open>\<open>(displayedVideoWidth, displayedVideoHeight, offsetX, offsetY)\<close> under \<open>object-fit: cover\<close>.\<close>

definition displayed :: "geometry \<Rightarrow> real \<times> real \<times> real \<times> real" where
  "displayed g =
     (let videoAspectRatio = videoWidth g / videoHeight g;
          displayAspectRatio = rectWidth g / rectHeight g
      in if videoAspectRatio > displayAspectRatio
         then (rectHeight g * videoAspectRatio, rectHeight g,
               (rectHeight g * videoAspectRatio - rectWidth g) / 2, 0)
         else (rectWidth g, rectWidth g / videoAspectRatio,
               0, (rectWidth g / videoAspectRatio - rectHeight g) / 2))"

text \<open>The projected, mirrored, unsmoothed values \<open>pixelX\<close>, \<open>pixelY\<close>, \<open>mirroredRotation\<close>, \<open>maskSize\<close>.\<close>

definition rawPose :: "geometry \<Rightarrow> result \<Rightarrow> smoothFace" where
  "rawPose g faceData =
     (case displayed g of (displayedVideoWidth, displayedVideoHeight, offsetX, offsetY) \<Rightarrow>
        (let mirroredX = 1 - px (center faceData);
             pixelX = (mirroredX * displayedVideoWidth) - offsetX;
             pixelY = (py (center faceData) * displayedVideoHeight) - offsetY;
             mirroredRotation = - rotation faceData;
             baseMaskSize = face_size faceData * displayedVideoHeight * 2.5;
             maskSize = max 100 (min 800 baseMaskSize)
         in \<lparr>pose_faceId = faceId faceData, pose_x = pixelX, pose_y = pixelY,
             pose_rotation = mirroredRotation, pose_size = maskSize,
             pose_maskNumber = maskNumber faceData\<rparr>))"

definition smoothOne :: "geometry \<Rightarrow> pose list \<Rightarrow> result \<Rightarrow> smoothFace" where
  "smoothOne g prevFaceData faceData =
     (let raw = rawPose g faceData in
      case find (\<lambda>data. pose_faceId data = faceId faceData) prevFaceData of
        Some prevData \<Rightarrow>
          \<lparr>pose_faceId = faceId faceData,
           pose_x = lerp (pose_x prevData) (pose_x raw) smoothingFactor,
           pose_y = lerp (pose_y prevData) (pose_y raw) smoothingFactor,
           pose_rotation = lerp (pose_rotation prevData) (pose_rotation raw) smoothingFactor,
           pose_size = lerp (pose_size prevData) (pose_size raw) smoothingFactor,
           pose_maskNumber = maskNumber faceData\<rparr>
      | None \<Rightarrow> raw)"

definition toPrev :: "smoothFace \<Rightarrow> pose" where
  "toPrev f =
     \<lparr>pose_faceId = pose_faceId f, pose_x = pose_x f, pose_y = pose_y f,
      pose_rotation = pose_rotation f, pose_size = pose_size f\<rparr>"

text \<open>The new cache \<open>prevFaceData\<close> and the new list \<open>smoothFaces\<close>.\<close>

definition smoothFaces :: "geometry \<Rightarrow> pose list \<Rightarrow> result list \<Rightarrow> pose list \<times> smoothFace list" where
  "smoothFaces g prevFaceData tracked =
     (let newSmoothFaces = map (smoothOne g prevFaceData) tracked
      in (if length tracked = 0 then [] else map toPrev newSmoothFaces, newSmoothFaces))"

definition applySmoothInterpolation ::
  "geometry \<Rightarrow> int \<Rightarrow> registry \<times> pose list \<Rightarrow> landmarks option list
     \<Rightarrow> (registry \<times> pose list) \<times> smoothFace list"
where
  "applySmoothInterpolation g now st currentFaces =
     (case st of (reg, prevFaceData) \<Rightarrow>
        (case processDetections reg now currentFaces of (reg', tracked) \<Rightarrow>
           (case smoothFaces g prevFaceData tracked of (prevFaceData', newSmoothFaces) \<Rightarrow>
              ((reg', prevFaceData'), newSmoothFaces))))"

text \<open>The cache after a run of frames, each frame given by the tracked faces of its call.\<close>

fun smoothRun :: "geometry \<Rightarrow> pose list \<Rightarrow> result list list \<Rightarrow> pose list" where
  "smoothRun g prevFaceData [] = prevFaceData"
| "smoothRun g prevFaceData (tracked # rest) =
     smoothRun g (fst (smoothFaces g prevFaceData tracked)) rest"

section \<open>Example inputs\<close>

text \<open>
  A landmark array of 478 points whose eye corners and nose tip lie at \<open>(cx, cy)\<close> and whose
  forehead and chin points lie \<open>s\<close> apart: its center is \<open>(cx, cy)\<close>, its size \<open>\<bar>s\<bar>\<close> and its
  rotation \<open>0\<close>.
\<close>

definition face_at :: "real \<Rightarrow> real \<Rightarrow> real \<Rightarrow> landmarks option" where
  "face_at cx cy s =
     Some ((replicate 478 (Some \<lparr>px = cx, py = cy\<rparr>))
             [10 := Some \<lparr>px = cx, py = cy - s / 2\<rparr>, 152 := Some \<lparr>px = cx, py = cy + s / 2\<rparr>])"

text \<open>The detection that \<open>processDetections\<close> derives from \<open>face_at cx cy s\<close> at index \<open>i\<close>.\<close>

definition detection_at :: "nat \<Rightarrow> real \<Rightarrow> real \<Rightarrow> real \<Rightarrow> detection" where
  "detection_at i cx cy s =
     \<lparr>landmarks = face_at cx cy s, center = \<lparr>px = cx, py = cy\<rparr>, face_size = \<bar>s\<bar>,
      rotation = 0, originalIndex = i\<rparr>"

text \<open>A tracked face whose geometry is that of \<open>face_at cx cy s\<close>.\<close>

definition track_at :: "nat \<Rightarrow> nat \<Rightarrow> real \<Rightarrow> real \<Rightarrow> real \<Rightarrow> nat \<Rightarrow> int \<Rightarrow> int \<Rightarrow> trackedFace" where
  "track_at n m cx cy s missing seen0 seen1 =
     \<lparr>landmarks = face_at cx cy s, center = \<lparr>px = cx, py = cy\<rparr>, face_size = \<bar>s\<bar>,
      rotation = 0, faceId = Face n, maskNumber = m,
      framesMissing = missing, firstSeen = seen0, lastSeen = seen1\<rparr>"

text \<open>Faces side by side, \<open>0.16\<close> apart: further than \<open>matchThreshold\<close> from one another.\<close>

definition five_faces :: "landmarks option list" where
  "five_faces = [face_at 0.1 0.5 0.2, face_at 0.26 0.5 0.2, face_at 0.42 0.5 0.2,
                 face_at 0.58 0.5 0.2, face_at 0.74 0.5 0.2]"

definition six_faces :: "landmarks option list" where
  "six_faces = five_faces @ [face_at 0.9 0.5 0.2]"

text \<open>
  A canvas that shows a 1920 by 1080 video unscaled, a cached pose, and a tracked face in
  the middle of the frame with the pose it projects to.
\<close>

definition hd_geometry :: geometry where
  "hd_geometry = \<lparr>videoWidth = 1920, videoHeight = 1080, rectWidth = 1920, rectHeight = 1080\<rparr>"

definition start_pose :: pose where
  "start_pose = \<lparr>pose_faceId = Face 1, pose_x = 0, pose_y = 0, pose_rotation = 10, pose_size = 100\<rparr>"

definition target_pose :: pose where
  "target_pose = \<lparr>pose_faceId = Face 1, pose_x = 960, pose_y = 540, pose_rotation = 0, pose_size = 540\<rparr>"

definition centered :: result where
  "centered = tag (detection_at 0 0.5 0.5 0.2) (Face 1) 1"

section \<open>Auxiliary notions\<close>

text \<open>
  The accumulator of the loop of \<open>findBestMatch\<close> is consistent: without a best match the
  best score is \<open>0\<close>; with one, the best score is its similarity, above the minimum.
\<close>

definition acc_ok :: "registry \<Rightarrow> detection \<Rightarrow> match option \<times> real \<Rightarrow> bool" where
  "acc_ok reg d acc =
     (case fst acc of
        None \<Rightarrow> snd acc = 0
      | Some (fid, t, s) \<Rightarrow> snd acc = s \<and> 0.6 < s \<and> calculateSimilarity reg d t = Some s)"

text \<open>The keys and the mask numbers of the tracked faces, in map order.\<close>

definition keys :: "registry \<Rightarrow> face_id list" where
  "keys reg = map fst (trackedFaces reg)"

definition slots :: "registry \<Rightarrow> nat list" where
  "slots reg = map (\<lambda>e. maskNumber (snd e)) (trackedFaces reg)"

text \<open>
  The keys are distinct (the map is a map) and each was built from a counter value below
  the current one; the mask numbers lie in \<open>[1, maxFaces]\<close>.
\<close>

fun face_number :: "face_id \<Rightarrow> nat" where
  "face_number (Face n) = n"

definition ids_ok :: "registry \<Rightarrow> bool" where
  "ids_ok reg = (distinct (keys reg) \<and> list_all (\<lambda>k. face_number k < nextFaceId reg) (keys reg))"

definition slots_ok :: "registry \<Rightarrow> bool" where
  "slots_ok reg = list_all (\<lambda>s. 1 \<le> s \<and> s \<le> maxFaces reg) (slots reg)"

text \<open>\<open>facesToRemove\<close> of the clean-up loop.\<close>

definition removed :: "registry \<Rightarrow> int \<Rightarrow> face_id list \<Rightarrow> face_id list" where
  "removed reg currentTime m =
     concat (map (toRemove reg currentTime m) (map (countMissing m) (trackedFaces reg)))"

text \<open>A result entry carries the fields of the detection it was pushed for.\<close>

definition from_detection :: "detection \<Rightarrow> result \<Rightarrow> bool" where
  "from_detection d r =
     (landmarks r = landmarks d \<and> center r = center d \<and> face_size r = face_size d
      \<and> rotation r = rotation d \<and> detectionIndex r = originalIndex d)"

text \<open>
  In a frame, the first tracked face with key \<open>i\<close> projects to the pose \<open>target\<close>: the raw
  value of the identity is held at the target.
\<close>

definition held :: "geometry \<Rightarrow> face_id \<Rightarrow> pose \<Rightarrow> result list \<Rightarrow> bool" where
  "held g i target tracked =
     (case find (\<lambda>f. faceId f = i) tracked of
        None \<Rightarrow> False
      | Some f \<Rightarrow> toPrev (rawPose g f) = target)"

section \<open>Evaluating the extractors and the registry on the example inputs\<close>

lemma center_face_at: "calculateFaceCenter (face_at cx cy s) = Some \<lparr>px = cx, py = cy\<rparr>"
  by (simp add: face_at_def calculateFaceCenter_def calculateFaceCenter_try_def
      landmark_at_def midpoint_of_def)

lemma size_face_at: "calculateFaceSize (face_at cx cy s) = \<bar>s\<bar>"
  by (simp add: face_at_def calculateFaceSize_def calculateFaceSize_try_def landmark_at_def)

lemma rotation_face_at: "calculateHeadRotation (face_at cx cy s) = 0"
  by (simp add: face_at_def calculateHeadRotation_def calculateHeadRotation_try_def
      landmark_at_def midpoint_of_def atan2_def)

lemma toDetection_face_at:
  "toDetection (i, face_at cx cy s) =
     Some \<lparr>landmarks = face_at cx cy s, center = \<lparr>px = cx, py = cy\<rparr>, face_size = \<bar>s\<bar>,
           rotation = 0, originalIndex = i\<rparr>"
  by (simp add: toDetection_def center_face_at size_face_at rotation_face_at)

lemma calculateDistance_level:
  "py (center a) = py (center b) \<Longrightarrow> calculateDistance a b = \<bar>px (center a) - px (center b)\<bar>"
  by (simp add: calculateDistance_def)

lemma getNextMaskNumber_5:
  assumes "maxFaces reg = 5"
  shows "getNextMaskNumber reg =
     (if 1 \<notin> usedMasks reg then 1 else if 2 \<notin> usedMasks reg then 2
      else if 3 \<notin> usedMasks reg then 3 else if 4 \<notin> usedMasks reg then 4
      else if 5 \<notin> usedMasks reg then 5 else 1)"
proof -
  have u: "[1 ..< 5 + 1] = [1, 2, 3, 4, 5::nat]"
    by (simp add: upt_rec)
  show ?thesis
    unfolding getNextMaskNumber_def assms u by simp
qed

lemma toDetection_absent: "toDetection (i, None) = None"
  by (simp add: toDetection_def calculateFaceCenter_def)

lemma newDetections_Nil: "newDetections [] = []"
  by (simp add: newDetections_def List.map_filter_def)

lemma matchLoop_snoc: "matchLoop now reg (ds @ [d]) = matchStep now (matchLoop now reg ds) d"
  by (simp add: matchLoop_def)

lemma matchLoop_Nil: "matchLoop now reg [] = (reg, [], [])"
  by (simp add: matchLoop_def)

lemmas eval_registry = toDetection_absent run.simps
  processDetections_def newDetections_def List.map_filter_def toDetection_face_at
  matchLoop_def matchStep_def findBestMatch_def calculateSimilarity_def unit_score_def
  calculateDistance_level getNextMaskNumber_5 usedMasks_def cleanup_def countMissing_def
  toRemove_def tag_def new_FaceRegistry_def Let_def

section \<open>Association lists as maps\<close>

lemma update_fresh_append:
  "k \<notin> fst ` set al \<Longrightarrow> AList.update k v al = al @ [(k, v)]"
  by (induction al) auto

lemma update_present_keys:
  "k \<in> fst ` set al \<Longrightarrow> map fst (AList.update k v al) = map fst al"
  by (induction al) auto

lemma update_present_length:
  "k \<in> fst ` set al \<Longrightarrow> length (AList.update k v al) = length al"
  by (induction al) auto

lemma update_present_map_snd:
  "distinct (map fst al) \<Longrightarrow> (k, t) \<in> set al \<Longrightarrow> f v = f t \<Longrightarrow>
   map (\<lambda>e. f (snd e)) (AList.update k v al) = map (\<lambda>e. f (snd e)) al"
  by (induction al) (auto simp: rev_image_eqI)

lemma fold_delete_filter:
  "fold AList.delete ks al = filter (\<lambda>e. fst e \<notin> set ks) al"
proof (induction ks arbitrary: al)
  case Nil
  show ?case by simp
next
  case (Cons k ks)
  have "filter (\<lambda>e. fst e \<notin> set ks) (AList.delete k al) = filter (\<lambda>e. fst e \<notin> set (k # ks)) al"
    by (induction al) (auto simp: AList.delete_eq)
  with Cons show ?case by simp
qed

section \<open>The best match\<close>


lemma findBestMatch_loop_props:
  assumes "acc_ok reg d acc"
  shows "acc_ok reg d (findBestMatch_loop reg d xs acc)
       \<and> snd acc \<le> snd (findBestMatch_loop reg d xs acc)
       \<and> (fst (findBestMatch_loop reg d xs acc) = fst acc
          \<or> (\<exists>fid t s. fst (findBestMatch_loop reg d xs acc) = Some (fid, t, s) \<and> (fid, t) \<in> set xs))
       \<and> (\<forall>fid t s. (fid, t) \<in> set xs \<longrightarrow> calculateSimilarity reg d t = Some s \<longrightarrow> 0.6 < s
             \<longrightarrow> s \<le> snd (findBestMatch_loop reg d xs acc)
                 \<and> fst (findBestMatch_loop reg d xs acc) \<noteq> None)"
  using assms
proof (induction reg d xs acc rule: findBestMatch_loop.induct)
  case (1 reg newFace acc)
  then show ?case by simp
next
  case (2 reg newFace fid tracked rest bestMatch bestScore)
  show ?case
  proof (cases "calculateSimilarity reg newFace tracked")
    case None
    with 2 show ?thesis by auto
  next
    case (Some similarity)
    show ?thesis
    proof (cases "similarity > bestScore \<and> similarity > 0.6")
      case True
      have ok: "acc_ok reg newFace (Some (fid, tracked, similarity), similarity)"
        using True Some by (simp add: acc_ok_def)
      from "2.IH"(2)[OF Some True ok] True Some show ?thesis
        by (auto simp: acc_ok_def)
    next
      case False
      from "2.IH"(3)[OF Some False "2.prems"] False Some "2.prems" show ?thesis
        by (auto simp: acc_ok_def split: option.splits)
    qed
  qed
qed


lemma acc_ok_start: "acc_ok reg d (None, 0)"
  by (simp add: acc_ok_def)

lemma findBestMatch_Some:
  assumes "findBestMatch reg d = Some (fid, t, s)"
  shows "(fid, t) \<in> set (trackedFaces reg)" and "calculateSimilarity reg d t = Some s"
    and "0.6 < s"
    and "\<And>fid' t' s'. (fid', t') \<in> set (trackedFaces reg) \<Longrightarrow>
           calculateSimilarity reg d t' = Some s' \<Longrightarrow> s' \<le> s"
proof -
  let ?r = "findBestMatch_loop reg d (trackedFaces reg) (None, 0)"
  note p = findBestMatch_loop_props [OF acc_ok_start, of reg d "trackedFaces reg"]
  from assms have f: "fst ?r = Some (fid, t, s)"
    by (simp add: findBestMatch_def)
  from p f show "(fid, t) \<in> set (trackedFaces reg)"
    by auto
  from p f show sim: "calculateSimilarity reg d t = Some s" and big: "0.6 < s"
    by (auto simp: acc_ok_def)
  from p f have snd: "snd ?r = s"
    by (auto simp: acc_ok_def)
  fix fid' t' s'
  assume m: "(fid', t') \<in> set (trackedFaces reg)" and c: "calculateSimilarity reg d t' = Some s'"
  show "s' \<le> s"
  proof (cases "0.6 < s'")
    case True
    with p m c snd show ?thesis by auto
  next
    case False
    with big show ?thesis by simp
  qed
qed

lemma findBestMatch_None:
  assumes "findBestMatch reg d = None" and "(fid, t) \<in> set (trackedFaces reg)"
    and "calculateSimilarity reg d t = Some s"
  shows "s \<le> 0.6"
proof (rule ccontr)
  assume "\<not> s \<le> 0.6"
  then have "0.6 < s" by simp
  with findBestMatch_loop_props [OF acc_ok_start, of reg d "trackedFaces reg"] assms(2,3)
  have "fst (findBestMatch_loop reg d (trackedFaces reg) (None, 0)) \<noteq> None"
    by blast
  with assms(1) show False
    by (simp add: findBestMatch_def)
qed

section \<open>Invariants of the registry\<close>






lemma usedMasks_slots: "usedMasks reg = set (slots reg)"
  by (simp add: usedMasks_def slots_def case_prod_beta)

lemma fresh_key: "ids_ok reg \<Longrightarrow> Face (nextFaceId reg) \<notin> fst ` set (trackedFaces reg)"
  by (fastforce simp: ids_ok_def keys_def list_all_iff)

text \<open>One step of the matching loop, by the two branches.\<close>

lemma matchStep_match:
  assumes "findBestMatch reg d = Some (fid, t, s)"
  shows "matchStep now (reg, results, matched) d =
     (reg\<lparr>trackedFaces :=
            AList.update fid
              (t\<lparr>landmarks := landmarks d, center := center d, face_size := face_size d,
                 rotation := rotation d, framesMissing := 0, lastSeen := now\<rparr>)
              (trackedFaces reg)\<rparr>,
      results @ [tag d fid (maskNumber t)], fid # matched)"
  using assms by (simp add: matchStep_def)

lemma matchStep_new:
  assumes "findBestMatch reg d = None"
  shows "matchStep now (reg, results, matched) d =
     (reg\<lparr>nextFaceId := nextFaceId reg + 1,
          trackedFaces :=
            AList.update (Face (nextFaceId reg))
              \<lparr>landmarks = landmarks d, center = center d, face_size = face_size d,
               rotation = rotation d, faceId = Face (nextFaceId reg),
               maskNumber = getNextMaskNumber reg,
               framesMissing = 0, firstSeen = now, lastSeen = now\<rparr>
              (trackedFaces reg)\<rparr>,
      results @ [tag d (Face (nextFaceId reg)) (getNextMaskNumber reg)], matched)"
  using assms by (simp add: matchStep_def Let_def)

lemma matchStep_cases:
  obtains (match) fid t s where "findBestMatch reg d = Some (fid, t, s)"
  | (new) "findBestMatch reg d = None"
  by (cases "findBestMatch reg d") auto

lemma matchStep_config:
  "maxFaces (fst (matchStep now (reg, rs, m) d)) = maxFaces reg"
  "matchThreshold (fst (matchStep now (reg, rs, m) d)) = matchThreshold reg"
  "maxFramesMissing (fst (matchStep now (reg, rs, m) d)) = maxFramesMissing reg"
  "maxFaceAge (fst (matchStep now (reg, rs, m) d)) = maxFaceAge reg"
  by (cases rule: matchStep_cases [of reg d]; simp add: matchStep_match matchStep_new)+

lemma matchStep_length:
  "length (trackedFaces (fst (matchStep now (reg, rs, m) d))) \<le> length (trackedFaces reg) + 1"
proof -
  have "length (AList.update k v al) \<le> length al + 1" for k :: face_id and v :: trackedFace and al
    by (induction al) auto
  then show ?thesis
    by (cases rule: matchStep_cases [of reg d]; simp add: matchStep_match matchStep_new)
qed

lemma matchStep_ids_ok:
  assumes "ids_ok reg"
  shows "ids_ok (fst (matchStep now (reg, rs, m) d))"
proof (cases rule: matchStep_cases [of reg d])
  case (match fid t s)
  then have "fid \<in> fst ` set (trackedFaces reg)"
    using findBestMatch_Some(1) by force
  with assms match show ?thesis
    by (simp add: matchStep_match ids_ok_def keys_def update_present_keys)
next
  case new
  from assms have "list_all (\<lambda>k. face_number k < nextFaceId reg + 1) (keys reg)"
    by (auto simp: ids_ok_def list_all_iff)
  with assms new fresh_key [OF assms] show ?thesis
    by (simp add: matchStep_new ids_ok_def keys_def update_fresh_append)
qed

lemma matchStep_slots:
  assumes "ids_ok reg"
  shows "slots (fst (matchStep now (reg, rs, m) d)) =
           (case findBestMatch reg d of Some x \<Rightarrow> slots reg | None \<Rightarrow> slots reg @ [getNextMaskNumber reg])"
proof (cases rule: matchStep_cases [of reg d])
  case (match fid t s)
  then have "(fid, t) \<in> set (trackedFaces reg)"
    using findBestMatch_Some(1) by force
  with assms match show ?thesis
    by (simp add: matchStep_match slots_def ids_ok_def keys_def update_present_map_snd)
next
  case new
  with fresh_key [OF assms] show ?thesis
    by (simp add: matchStep_new slots_def update_fresh_append)
qed


lemma matchStep_length_mono:
  "length (trackedFaces reg) \<le> length (trackedFaces (fst (matchStep now (reg, rs, m) d)))"
proof -
  have "length al \<le> length (AList.update k v al)" for k :: face_id and v :: trackedFace and al
    by (induction al) auto
  then show ?thesis
    by (cases rule: matchStep_cases [of reg d]; simp add: matchStep_match matchStep_new)
qed

lemma matchStep_length_new:
  assumes "ids_ok reg" and "findBestMatch reg d = None"
  shows "length (trackedFaces (fst (matchStep now (reg, rs, m) d))) = length (trackedFaces reg) + 1"
  using assms fresh_key [OF assms(1)] by (simp add: matchStep_new update_fresh_append)

lemma matchStep_nextFaceId:
  "nextFaceId reg \<le> nextFaceId (fst (matchStep now (reg, rs, m) d))"
  by (cases rule: matchStep_cases [of reg d]; simp add: matchStep_match matchStep_new)

section \<open>The next mask number\<close>

lemma find_upt_Some:
  "find P [a ..< b] = Some i \<longleftrightarrow> a \<le> i \<and> i < b \<and> P i \<and> (\<forall>j. a \<le> j \<and> j < i \<longrightarrow> \<not> P j)"
proof (induction "b - a" arbitrary: a)
  case 0
  then show ?case by auto
next
  case (Suc n)
  then have ab: "a < b" and n: "n = b - Suc a" by auto
  have u: "[a ..< b] = a # [Suc a ..< b]"
    using ab by (simp add: upt_rec)
  show ?case
  proof (cases "P a")
    case True
    then show ?thesis
      using ab by (auto simp: u)
  next
    case False
    have "(\<forall>j. Suc a \<le> j \<and> j < i \<longrightarrow> \<not> P j) \<longleftrightarrow> (\<forall>j. a \<le> j \<and> j < i \<longrightarrow> \<not> P j)"
      using False by (metis Suc_leD Suc_leI le_eq_less_or_eq)
    moreover have "Suc a \<le> i \<and> P i \<longleftrightarrow> a \<le> i \<and> P i"
      using False by (metis Suc_leD Suc_leI le_eq_less_or_eq)
    ultimately show ?thesis
      using False Suc.hyps(1) [OF n] by (auto simp: u)
  qed
qed

lemma find_upt_None:
  "find P [a ..< b] = None \<longleftrightarrow> (\<forall>i. a \<le> i \<and> i < b \<longrightarrow> \<not> P i)"
  by (auto simp: find_None_iff)

lemma getNextMaskNumber_free:
  assumes "i \<notin> usedMasks reg" and "1 \<le> i" and "i \<le> maxFaces reg"
  shows "getNextMaskNumber reg \<notin> usedMasks reg" and "getNextMaskNumber reg \<le> i"
    and "1 \<le> getNextMaskNumber reg" and "getNextMaskNumber reg \<le> maxFaces reg"
proof -
  let ?P = "\<lambda>i. i \<notin> usedMasks reg"
  have "find ?P [1 ..< maxFaces reg + 1] \<noteq> None"
  proof
    assume "find ?P [1 ..< maxFaces reg + 1] = None"
    then have "\<forall>i. 1 \<le> i \<and> i < maxFaces reg + 1 \<longrightarrow> \<not> ?P i"
      by (simp only: find_upt_None)
    with assms show False by auto
  qed
  then obtain k where k: "find ?P [1 ..< maxFaces reg + 1] = Some k"
    by blast
  then have g: "getNextMaskNumber reg = k"
    by (simp only: getNextMaskNumber_def option.case)
  from k find_upt_Some [of ?P 1 "maxFaces reg + 1" k]
  have p: "1 \<le> k \<and> k < maxFaces reg + 1 \<and> ?P k \<and> (\<forall>j. 1 \<le> j \<and> j < k \<longrightarrow> \<not> ?P j)"
    by blast
  from p g show "getNextMaskNumber reg \<notin> usedMasks reg" "1 \<le> getNextMaskNumber reg"
    "getNextMaskNumber reg \<le> maxFaces reg"
    by auto
  from p assms(1,2) have "\<not> i < k" by blast
  with g show "getNextMaskNumber reg \<le> i" by simp
qed

lemma getNextMaskNumber_full:
  assumes "\<forall>i. 1 \<le> i \<and> i \<le> maxFaces reg \<longrightarrow> i \<in> usedMasks reg"
  shows "getNextMaskNumber reg = 1"
proof -
  from assms have "\<forall>i. 1 \<le> i \<and> i < maxFaces reg + 1 \<longrightarrow> \<not> i \<notin> usedMasks reg"
    by auto
  then have "find (\<lambda>i. i \<notin> usedMasks reg) [1 ..< maxFaces reg + 1] = None"
    by (simp only: find_upt_None)
  then show ?thesis
    by (simp only: getNextMaskNumber_def option.case)
qed

lemma getNextMaskNumber_range:
  assumes "1 \<le> maxFaces reg"
  shows "1 \<le> getNextMaskNumber reg \<and> getNextMaskNumber reg \<le> maxFaces reg"
proof (cases "\<forall>i. 1 \<le> i \<and> i \<le> maxFaces reg \<longrightarrow> i \<in> usedMasks reg")
  case True
  with assms show ?thesis by (simp add: getNextMaskNumber_full)
next
  case False
  then show ?thesis
    using getNextMaskNumber_free(3,4) by blast
qed

lemma getNextMaskNumber_lowest:
  assumes "1 \<le> j" and "j < getNextMaskNumber reg"
  shows "j \<in> usedMasks reg"
proof (rule ccontr)
  assume n: "j \<notin> usedMasks reg"
  show False
  proof (cases "j \<le> maxFaces reg")
    case True
    from getNextMaskNumber_free(2) [OF n assms(1) True] assms(2) show False by simp
  next
    case False
    have "getNextMaskNumber reg \<le> maxFaces reg \<or> getNextMaskNumber reg = 1"
      using getNextMaskNumber_full getNextMaskNumber_free(4) by blast
    with False assms show False by auto
  qed
qed

text \<open>With distinct mask numbers in range and fewer faces than \<open>maxFaces\<close>, a mask number is free.\<close>

lemma free_slot_exists:
  assumes "slots_ok reg" and "distinct (slots reg)" and "length (trackedFaces reg) < maxFaces reg"
  shows "\<exists>i. 1 \<le> i \<and> i \<le> maxFaces reg \<and> i \<notin> usedMasks reg"
proof (rule ccontr)
  assume "\<not> ?thesis"
  then have "{1 .. maxFaces reg} \<subseteq> set (slots reg)"
    by (auto simp: usedMasks_slots)
  then have "card {1 .. maxFaces reg} \<le> card (set (slots reg))"
    by (intro card_mono) auto
  also have "\<dots> = length (slots reg)"
    using assms(2) by (simp add: distinct_card)
  also have "\<dots> = length (trackedFaces reg)"
    by (simp add: slots_def)
  finally show False
    using assms(3) by simp
qed


section \<open>The matching loop\<close>

lemma matchStep_slots_ok:
  assumes "ids_ok reg" and "slots_ok reg" and "1 \<le> maxFaces reg"
  shows "slots_ok (fst (matchStep now (reg, rs, m) d))"
  using assms getNextMaskNumber_range [OF assms(3)]
  by (simp add: slots_ok_def matchStep_slots matchStep_config split: option.splits)

lemma matchStep_distinct:
  assumes "ids_ok reg" and "slots_ok reg" and "distinct (slots reg)"
    and "length (trackedFaces (fst (matchStep now (reg, rs, m) d))) \<le> maxFaces reg"
  shows "distinct (slots (fst (matchStep now (reg, rs, m) d)))"
proof (cases rule: matchStep_cases [of reg d])
  case (match fid t s)
  with assms show ?thesis by (simp add: matchStep_slots)
next
  case new
  with assms(1,4) have "length (trackedFaces reg) < maxFaces reg"
    by (simp add: matchStep_length_new)
  from free_slot_exists [OF assms(2,3) this] have "getNextMaskNumber reg \<notin> usedMasks reg"
    using getNextMaskNumber_free(1) by blast
  with assms new show ?thesis
    by (simp add: matchStep_slots usedMasks_slots)
qed

lemma loop_config:
  "maxFaces (fst (foldl (matchStep now) (reg, rs, m) ds)) = maxFaces reg
   \<and> matchThreshold (fst (foldl (matchStep now) (reg, rs, m) ds)) = matchThreshold reg
   \<and> maxFramesMissing (fst (foldl (matchStep now) (reg, rs, m) ds)) = maxFramesMissing reg
   \<and> maxFaceAge (fst (foldl (matchStep now) (reg, rs, m) ds)) = maxFaceAge reg"
proof (induction ds arbitrary: reg rs m)
  case Nil
  show ?case by simp
next
  case (Cons d ds)
  obtain reg' rs' m' where st: "matchStep now (reg, rs, m) d = (reg', rs', m')"
    by (cases "matchStep now (reg, rs, m) d") auto
  with matchStep_config [of now reg rs m d] Cons [of reg' rs' m'] show ?case
    by simp
qed

lemma loop_ids_ok:
  "ids_ok reg \<Longrightarrow> ids_ok (fst (foldl (matchStep now) (reg, rs, m) ds))"
proof (induction ds arbitrary: reg rs m)
  case Nil
  then show ?case by simp
next
  case (Cons d ds)
  obtain reg' rs' m' where st: "matchStep now (reg, rs, m) d = (reg', rs', m')"
    by (cases "matchStep now (reg, rs, m) d") auto
  with matchStep_ids_ok [OF Cons.prems, of now rs m d] Cons.IH [of reg' rs' m'] show ?case
    by simp
qed

lemma loop_length_le:
  "length (trackedFaces (fst (foldl (matchStep now) (reg, rs, m) ds)))
     \<le> length (trackedFaces reg) + length ds"
proof (induction ds arbitrary: reg rs m)
  case Nil
  show ?case by simp
next
  case (Cons d ds)
  obtain reg' rs' m' where st: "matchStep now (reg, rs, m) d = (reg', rs', m')"
    by (cases "matchStep now (reg, rs, m) d") auto
  with matchStep_length [of now reg rs m d] Cons [of reg' rs' m'] show ?case
    by simp
qed

lemma loop_length_mono:
  "length (trackedFaces reg) \<le> length (trackedFaces (fst (foldl (matchStep now) (reg, rs, m) ds)))"
proof (induction ds arbitrary: reg rs m)
  case Nil
  show ?case by simp
next
  case (Cons d ds)
  obtain reg' rs' m' where st: "matchStep now (reg, rs, m) d = (reg', rs', m')"
    by (cases "matchStep now (reg, rs, m) d") auto
  with matchStep_length_mono [of reg now rs m d] Cons [of reg' rs' m'] show ?case
    by simp
qed

lemma loop_nextFaceId:
  "nextFaceId reg \<le> nextFaceId (fst (foldl (matchStep now) (reg, rs, m) ds))"
proof (induction ds arbitrary: reg rs m)
  case Nil
  show ?case by simp
next
  case (Cons d ds)
  obtain reg' rs' m' where st: "matchStep now (reg, rs, m) d = (reg', rs', m')"
    by (cases "matchStep now (reg, rs, m) d") auto
  with matchStep_nextFaceId [of reg now rs m d] Cons [of reg' rs' m'] show ?case
    by simp
qed

lemma loop_slots_ok:
  "ids_ok reg \<Longrightarrow> slots_ok reg \<Longrightarrow> 1 \<le> maxFaces reg \<Longrightarrow>
   slots_ok (fst (foldl (matchStep now) (reg, rs, m) ds))"
proof (induction ds arbitrary: reg rs m)
  case Nil
  then show ?case by simp
next
  case (Cons d ds)
  obtain reg' rs' m' where st: "matchStep now (reg, rs, m) d = (reg', rs', m')"
    by (cases "matchStep now (reg, rs, m) d") auto
  have "ids_ok reg'" "slots_ok reg'" "1 \<le> maxFaces reg'"
    using st matchStep_ids_ok [OF Cons.prems(1), of now rs m d]
      matchStep_slots_ok [OF Cons.prems, of now rs m d] matchStep_config(1) [of now reg rs m d]
      Cons.prems(3)
    by simp_all
  from Cons.IH [OF this, of rs' m'] st show ?case
    by simp
qed

lemma loop_distinct:
  "ids_ok reg \<Longrightarrow> slots_ok reg \<Longrightarrow> distinct (slots reg) \<Longrightarrow>
   length (trackedFaces (fst (foldl (matchStep now) (reg, rs, m) ds))) \<le> maxFaces reg \<Longrightarrow>
   distinct (slots (fst (foldl (matchStep now) (reg, rs, m) ds)))"
proof (induction ds arbitrary: reg rs m)
  case Nil
  then show ?case by simp
next
  case (Cons d ds)
  obtain reg' rs' m' where st: "matchStep now (reg, rs, m) d = (reg', rs', m')"
    by (cases "matchStep now (reg, rs, m) d") auto
  have cap: "length (trackedFaces (fst (foldl (matchStep now) (reg', rs', m') ds))) \<le> maxFaces reg"
    using Cons.prems(4) st by simp
  with loop_length_mono [of reg' now rs' m' ds]
  have le: "length (trackedFaces reg') \<le> maxFaces reg"
    by simp
  have one: "1 \<le> maxFaces reg"
  proof (cases "trackedFaces reg'")
    case Nil
    with matchStep_length_mono [of reg now rs m d] st have "trackedFaces reg = []" by simp
    moreover have "trackedFaces reg' \<noteq> []"
      using st by (cases rule: matchStep_cases [of reg d]) (auto simp: matchStep_match matchStep_new)
    ultimately show ?thesis using Nil by simp
  next
    case (Cons a list)
    with le show ?thesis by simp
  qed
  have "ids_ok reg'" "slots_ok reg'" "distinct (slots reg')" "maxFaces reg' = maxFaces reg"
    using st matchStep_ids_ok [OF Cons.prems(1), of now rs m d]
      matchStep_slots_ok [OF Cons.prems(1,2) one, of now rs m d]
      matchStep_distinct [OF Cons.prems(1,2,3), of now rs m d] le
      matchStep_config(1) [of now reg rs m d]
    by simp_all
  with Cons.IH [of reg' rs' m'] cap st show ?case
    by simp
qed


section \<open>The clean-up\<close>


lemma fst_countMissing [simp]: "fst (countMissing m e) = fst e"
  by (cases e) (simp add: countMissing_def)

lemma maskNumber_countMissing [simp]: "maskNumber (snd (countMissing m e)) = maskNumber (snd e)"
  by (cases e) (simp add: countMissing_def)

lemma cleanup_tracks:
  "trackedFaces (cleanup now reg m) =
     map (countMissing m) (filter (\<lambda>e. fst e \<notin> set (removed reg now m)) (trackedFaces reg))"
  by (simp add: cleanup_def Let_def fold_delete_filter removed_def filter_map comp_def)

lemma cleanup_config:
  "maxFaces (cleanup now reg m) = maxFaces reg"
  "matchThreshold (cleanup now reg m) = matchThreshold reg"
  "maxFramesMissing (cleanup now reg m) = maxFramesMissing reg"
  "maxFaceAge (cleanup now reg m) = maxFaceAge reg"
  "nextFaceId (cleanup now reg m) = nextFaceId reg"
  by (simp_all add: cleanup_def Let_def)

lemma cleanup_keys:
  "keys (cleanup now reg m) = filter (\<lambda>k. k \<notin> set (removed reg now m)) (keys reg)"
  by (simp add: keys_def cleanup_tracks filter_map comp_def)

lemma cleanup_slots:
  "slots (cleanup now reg m) =
     map (\<lambda>e. maskNumber (snd e)) (filter (\<lambda>e. fst e \<notin> set (removed reg now m)) (trackedFaces reg))"
  by (simp add: slots_def cleanup_tracks comp_def)

lemma cleanup_ids_ok: "ids_ok reg \<Longrightarrow> ids_ok (cleanup now reg m)"
  by (auto simp: ids_ok_def cleanup_keys cleanup_config list_all_iff)

lemma cleanup_slots_ok: "slots_ok reg \<Longrightarrow> slots_ok (cleanup now reg m)"
  unfolding slots_ok_def cleanup_slots cleanup_config
  by (auto simp: list_all_iff slots_def)

lemma cleanup_distinct: "distinct (slots reg) \<Longrightarrow> distinct (slots (cleanup now reg m))"
  by (simp only: cleanup_slots) (simp add: slots_def distinct_map_filter)

lemma cleanup_length: "length (trackedFaces (cleanup now reg m)) \<le> length (trackedFaces reg)"
  by (simp add: cleanup_tracks)

section \<open>One call and a session\<close>

lemma processDetections_fst:
  "fst (processDetections reg now cf) =
     (if length cf = 0
      then (cleanup now (fst (matchLoop now reg (newDetections cf)))
              (snd (snd (matchLoop now reg (newDetections cf)))))\<lparr>trackedFaces := []\<rparr>
      else cleanup now (fst (matchLoop now reg (newDetections cf)))
              (snd (snd (matchLoop now reg (newDetections cf)))))"
  by (simp add: processDetections_def Let_def split: prod.splits)

lemma processDetections_config:
  "maxFaces (fst (processDetections reg now cf)) = maxFaces reg"
  "matchThreshold (fst (processDetections reg now cf)) = matchThreshold reg"
  "maxFramesMissing (fst (processDetections reg now cf)) = maxFramesMissing reg"
  "maxFaceAge (fst (processDetections reg now cf)) = maxFaceAge reg"
  by (simp_all add: processDetections_fst cleanup_config matchLoop_def loop_config)

lemma processDetections_ids_ok:
  assumes "ids_ok reg"
  shows "ids_ok (fst (processDetections reg now cf))"
proof -
  have "ids_ok (cleanup now (fst (matchLoop now reg (newDetections cf))) m)" for m
    using loop_ids_ok [OF assms, of now "[]" "[]" "newDetections cf"]
    by (simp add: matchLoop_def cleanup_ids_ok)
  then show ?thesis
    by (auto simp: processDetections_fst ids_ok_def keys_def)
qed

lemma processDetections_slots_ok:
  assumes "ids_ok reg" and "slots_ok reg" and "1 \<le> maxFaces reg"
  shows "slots_ok (fst (processDetections reg now cf))"
proof -
  have "slots_ok (cleanup now (fst (matchLoop now reg (newDetections cf))) m)" for m
    using loop_slots_ok [OF assms, of now "[]" "[]" "newDetections cf"]
    by (simp add: matchLoop_def cleanup_slots_ok)
  then show ?thesis
    by (auto simp: processDetections_fst slots_ok_def slots_def)
qed

lemma processDetections_distinct:
  assumes "ids_ok reg" and "slots_ok reg" and "distinct (slots reg)"
    and "length (trackedFaces (fst (matchLoop now reg (newDetections cf)))) \<le> maxFaces reg"
  shows "distinct (slots (fst (processDetections reg now cf)))"
proof -
  have "distinct (slots (cleanup now (fst (matchLoop now reg (newDetections cf))) m))" for m
    using loop_distinct [OF assms(1,2,3), of now "[]" "[]" "newDetections cf"] assms(4)
    by (simp add: matchLoop_def cleanup_distinct)
  then show ?thesis
    by (auto simp: processDetections_fst slots_def)
qed

lemma new_FaceRegistry_ok:
  "ids_ok new_FaceRegistry" "slots_ok new_FaceRegistry" "distinct (slots new_FaceRegistry)"
  "maxFaces new_FaceRegistry = 5"
  by (simp_all add: new_FaceRegistry_def ids_ok_def slots_ok_def slots_def keys_def)

lemma run_invariants:
  assumes "ids_ok reg" and "slots_ok reg" and "1 \<le> maxFaces reg"
  shows "ids_ok (run reg frames) \<and> slots_ok (run reg frames)
       \<and> maxFaces (run reg frames) = maxFaces reg
       \<and> maxFramesMissing (run reg frames) = maxFramesMissing reg"
  using assms
proof (induction reg frames rule: run.induct)
  case (1 reg)
  then show ?case by simp
next
  case (2 reg now currentFaces rest)
  then show ?case
    by (simp add: processDetections_ids_ok processDetections_slots_ok processDetections_config)
qed

lemma run_distinct:
  assumes "ids_ok reg" and "slots_ok reg" and "distinct (slots reg)"
    and "within_capacity reg frames"
  shows "distinct (slots (run reg frames))"
  using assms
proof (induction reg frames rule: run.induct)
  case (1 reg)
  then show ?case by simp
next
  case (2 reg now currentFaces rest)
  have "length (trackedFaces (fst (processDetections reg now currentFaces))) \<le> maxFaces reg"
    using "2.prems"(4) cleanup_length [of now "fst (matchLoop now reg (newDetections currentFaces))"
        "snd (snd (matchLoop now reg (newDetections currentFaces)))"]
    by (auto simp: processDetections_fst)
  then have one: "1 \<le> maxFaces reg \<or> trackedFaces (fst (processDetections reg now currentFaces)) = []"
    by (cases "trackedFaces (fst (processDetections reg now currentFaces))") auto
  have ok: "slots_ok (fst (processDetections reg now currentFaces))"
    using one "2.prems" processDetections_slots_ok [of reg now currentFaces]
    by (auto simp: slots_ok_def slots_def)
  from "2.prems" ok show ?case
    by (simp add: "2.IH" processDetections_ids_ok processDetections_distinct)
qed


section \<open>The results of a call\<close>

lemma from_detection_tag: "from_detection d (tag d fid m)"
  by (simp add: from_detection_def tag_def)

lemma matchStep_results:
  "\<exists>fid m. fst (snd (matchStep now (reg, rs, ms) d)) = rs @ [tag d fid m]"
  by (cases rule: matchStep_cases [of reg d]) (auto simp add: matchStep_match matchStep_new)

lemma list_all2_right_member:
  "list_all2 P xs ys \<Longrightarrow> y \<in> set ys \<Longrightarrow> \<exists>x \<in> set xs. P x y"
  by (induction rule: list_all2_induct) auto

lemma loop_results:
  "\<exists>new. fst (snd (foldl (matchStep now) (reg, rs, ms) ds)) = rs @ new
         \<and> list_all2 from_detection ds new"
proof (induction ds arbitrary: reg rs ms)
  case Nil
  show ?case by simp
next
  case (Cons d ds)
  obtain reg' rs' ms' where st: "matchStep now (reg, rs, ms) d = (reg', rs', ms')"
    by (cases "matchStep now (reg, rs, ms) d") auto
  with matchStep_results [of now reg rs ms d] obtain fid m where r: "rs' = rs @ [tag d fid m]"
    by auto
  from Cons [of reg' rs' ms'] obtain new where
    n: "fst (snd (foldl (matchStep now) (reg', rs', ms') ds)) = rs' @ new" "list_all2 from_detection ds new"
    by blast
  from n r st have "fst (snd (foldl (matchStep now) (reg, rs, ms) (d # ds))) = rs @ (tag d fid m # new)
      \<and> list_all2 from_detection (d # ds) (tag d fid m # new)"
    by (simp add: from_detection_tag)
  then show ?case by blast
qed

lemma processDetections_results:
  "currentFaces \<noteq> [] \<Longrightarrow>
   list_all2 from_detection (newDetections currentFaces) (snd (processDetections reg now currentFaces))"
  using loop_results [of now reg "[]" "[]" "newDetections currentFaces"]
  by (auto simp: processDetections_def matchLoop_def Let_def split: prod.splits)

lemma enumerate_nth: "enumerate 0 xs = map (\<lambda>i. (i, xs ! i)) [0 ..< length xs]"
  by (rule nth_equalityI) (simp_all add: nth_enumerate_eq)

lemma toDetection_Some:
  "toDetection (i, l) = Some d \<longleftrightarrow>
     (\<exists>c. calculateFaceCenter l = Some c
        \<and> d = \<lparr>landmarks = l, center = c, face_size = calculateFaceSize l,
                rotation = calculateHeadRotation l, originalIndex = i\<rparr>)"
  by (auto simp: toDetection_def split: option.splits)

lemma toDetection_None: "toDetection (i, l) = None \<longleftrightarrow> calculateFaceCenter l = None"
  by (auto simp: toDetection_def split: option.splits)

lemma newDetections_indices:
  "map originalIndex (newDetections cf) =
     filter (\<lambda>i. calculateFaceCenter (cf ! i) \<noteq> None) [0 ..< length cf]"
proof -
  have "map (\<lambda>i. originalIndex (the (toDetection (i, f i))))
          (filter (\<lambda>i. toDetection (i, f i) \<noteq> None) js) =
        filter (\<lambda>i. calculateFaceCenter (f i) \<noteq> None) js" for js and f :: "nat \<Rightarrow> landmarks option"
    by (induction js) (auto simp: toDetection_def split: option.splits)
  then show ?thesis
    by (simp add: newDetections_def List.map_filter_def enumerate_nth filter_map comp_def)
qed

lemma newDetections_member:
  assumes "d \<in> set (newDetections cf)"
  shows "originalIndex d < length cf" and "landmarks d = cf ! originalIndex d"
    and "calculateFaceCenter (landmarks d) = Some (center d)"
    and "face_size d = calculateFaceSize (landmarks d)"
    and "rotation d = calculateHeadRotation (landmarks d)"
proof -
  from assms obtain i where i: "i < length cf" "toDetection (i, cf ! i) = Some d"
    by (auto simp: newDetections_def List.map_filter_def enumerate_nth)
  then show "originalIndex d < length cf" "landmarks d = cf ! originalIndex d"
    "calculateFaceCenter (landmarks d) = Some (center d)"
    "face_size d = calculateFaceSize (landmarks d)"
    "rotation d = calculateHeadRotation (landmarks d)"
    by (auto simp: toDetection_Some)
qed

lemma processDetections_indices:
  "map detectionIndex (snd (processDetections reg now cf)) =
     filter (\<lambda>i. calculateFaceCenter (cf ! i) \<noteq> None) [0 ..< length cf]"
proof (cases "cf = []")
  case True
  then show ?thesis by (simp add: processDetections_def Let_def split: prod.splits)
next
  case False
  from processDetections_results [OF False, of reg now]
  have "map detectionIndex (snd (processDetections reg now cf)) = map originalIndex (newDetections cf)"
    by (induction rule: list_all2_induct) (auto simp: from_detection_def)
  then show ?thesis
    by (simp add: newDetections_indices)
qed

lemma processDetections_entries:
  assumes "r \<in> set (snd (processDetections reg now cf))"
  shows "detectionIndex r < length cf \<and> landmarks r = cf ! detectionIndex r
       \<and> calculateFaceCenter (landmarks r) = Some (center r)
       \<and> face_size r = calculateFaceSize (landmarks r)
       \<and> rotation r = calculateHeadRotation (landmarks r)"
proof -
  from assms have ne: "cf \<noteq> []"
    by (auto simp: processDetections_def Let_def split: prod.splits)
  from list_all2_right_member [OF processDetections_results [OF ne, of reg now] assms]
  obtain d where "d \<in> set (newDetections cf)" "from_detection d r"
    by blast
  with newDetections_member [of d cf] show ?thesis
    by (simp add: from_detection_def)
qed


lemma calculateFaceCenter_try_total: "calculateFaceCenter_try lms \<noteq> Inl e"
  by (simp add: calculateFaceCenter_try_def Let_def split: option.splits)

lemma calculateFaceSize_try_total: "calculateFaceSize_try lms \<noteq> Inl e"
  by (simp add: calculateFaceSize_try_def Let_def split: option.splits)

lemma eye_corner_missing:
  assumes "landmark_at lms 33 = None \<or> landmark_at lms 133 = None
         \<or> landmark_at lms 362 = None \<or> landmark_at lms 263 = None"
  shows "calculateFaceCenter (Some lms) = None" and "calculateHeadRotation_try lms = Inl TypeError"
    and "calculateHeadRotation (Some lms) = 0"
  using assms
  by (auto simp: calculateFaceCenter_def calculateFaceCenter_try_def calculateHeadRotation_def
      calculateHeadRotation_try_def split: option.splits)

lemma outline_missing:
  assumes "landmark_at lms 10 = None \<or> landmark_at lms 152 = None
         \<or> landmark_at lms 234 = None \<or> landmark_at lms 454 = None"
  shows "calculateFaceSize (Some lms) = 0.2"
  using assms
  by (auto simp: calculateFaceSize_def calculateFaceSize_try_def split: option.splits)

lemma run_config:
  "maxFaces (run reg frames) = maxFaces reg \<and> matchThreshold (run reg frames) = matchThreshold reg
   \<and> maxFramesMissing (run reg frames) = maxFramesMissing reg
   \<and> maxFaceAge (run reg frames) = maxFaceAge reg"
  by (induction reg frames rule: run.induct) (simp_all add: processDetections_config)

lemma calculateSimilarity_formula:
  assumes "matchThreshold reg \<noteq> 0" and "max (face_size a) (face_size b) \<noteq> 0"
  shows "calculateSimilarity reg a b =
     Some (0.7 * max 0 (1 - sqrt ((px (center a) - px (center b)) * (px (center a) - px (center b))
                               + (py (center a) - py (center b)) * (py (center a) - py (center b)))
                          / matchThreshold reg)
         + 0.3 * max 0 (1 - \<bar>face_size a - face_size b\<bar> / max (face_size a) (face_size b)))"
  using assms by (simp add: calculateSimilarity_def unit_score_def calculateDistance_def Let_def)

lemma findBestMatch_eligible:
  assumes "(fid, t) \<in> set (trackedFaces reg)" and "calculateSimilarity reg d t = Some s" and "0.6 < s"
  shows "findBestMatch reg d \<noteq> None"
  using findBestMatch_None [OF _ assms(1,2)] assms(3) by fastforce

lemma slots_ok_set: "slots_ok reg \<Longrightarrow> set (slots reg) \<subseteq> {1 .. maxFaces reg}"
  by (auto simp: slots_ok_def list_all_iff)

section \<open>Faces that no detection matches\<close>

lemma matchStep_matched_mono:
  "set ms \<subseteq> set (snd (snd (matchStep now (reg, rs, ms) d)))"
  by (cases rule: matchStep_cases [of reg d]) (auto simp: matchStep_match matchStep_new)

lemma loop_matched_mono:
  "set ms \<subseteq> set (snd (snd (foldl (matchStep now) (reg, rs, ms) ds)))"
proof (induction ds arbitrary: reg rs ms)
  case Nil
  show ?case by simp
next
  case (Cons d ds)
  obtain reg' rs' ms' where st: "matchStep now (reg, rs, ms) d = (reg', rs', ms')"
    by (cases "matchStep now (reg, rs, ms) d") auto
  have "set ms' \<subseteq> set (snd (snd (foldl (matchStep now) (reg', rs', ms') ds)))"
    by (rule Cons)
  with matchStep_matched_mono [of ms now reg rs d] st show ?case
    by auto
qed

lemma matchStep_keys_mono:
  "set (keys reg) \<subseteq> set (keys (fst (matchStep now (reg, rs, ms) d)))"
  by (cases rule: matchStep_cases [of reg d])
    (auto simp: matchStep_match matchStep_new keys_def dom_update)

lemma matchStep_keys_new:
  assumes "k \<in> set (keys (fst (matchStep now (reg, rs, ms) d)))"
  shows "k \<in> set (keys reg) \<or> k = Face (nextFaceId reg)"
proof (cases rule: matchStep_cases [of reg d])
  case (match fid t s)
  then have "fid \<in> fst ` set (trackedFaces reg)"
    using findBestMatch_Some(1) by force
  with assms match show ?thesis
    by (auto simp: matchStep_match keys_def dom_update)
next
  case new
  with assms show ?thesis
    by (auto simp: matchStep_new keys_def dom_update)
qed

lemma matchStep_unmatched_lookup:
  assumes "ids_ok reg" and "i \<in> set (keys reg)"
    and "i \<notin> set (snd (snd (matchStep now (reg, rs, ms) d)))"
  shows "map_of (trackedFaces (fst (matchStep now (reg, rs, ms) d))) i = map_of (trackedFaces reg) i"
proof (cases rule: matchStep_cases [of reg d])
  case (match fid t s)
  with assms(3) have "fid \<noteq> i"
    by (auto simp: matchStep_match)
  with match show ?thesis
    by (simp add: matchStep_match update_conv')
next
  case new
  from fresh_key [OF assms(1)] assms(2) have "Face (nextFaceId reg) \<noteq> i"
    by (auto simp: keys_def)
  with new show ?thesis
    by (simp add: matchStep_new update_conv')
qed

lemma matchStep_mask_preserved:
  assumes "ids_ok reg" and "map_of (trackedFaces reg) i = Some t"
  shows "\<exists>t1. map_of (trackedFaces (fst (matchStep now (reg, rs, ms) d))) i = Some t1
             \<and> maskNumber t1 = maskNumber t"
proof (cases rule: matchStep_cases [of reg d])
  case (match fid t' s)
  then have "(fid, t') \<in> set (trackedFaces reg)"
    using findBestMatch_Some(1) by force
  with assms(1) have "map_of (trackedFaces reg) fid = Some t'"
    by (simp add: ids_ok_def keys_def)
  with assms(2) match show ?thesis
    by (cases "fid = i") (auto simp: matchStep_match update_conv')
next
  case new
  from assms(2) have "i \<in> fst ` set (trackedFaces reg)"
    by (metis map_of_eq_None_iff option.distinct(1))
  with fresh_key [OF assms(1)] have "Face (nextFaceId reg) \<noteq> i"
    by auto
  with new assms(2) show ?thesis
    by (simp add: matchStep_new update_conv')
qed

lemma loop_unmatched_lookup:
  "ids_ok reg \<Longrightarrow> i \<in> set (keys reg) \<Longrightarrow>
   i \<notin> set (snd (snd (foldl (matchStep now) (reg, rs, ms) ds))) \<Longrightarrow>
   map_of (trackedFaces (fst (foldl (matchStep now) (reg, rs, ms) ds))) i = map_of (trackedFaces reg) i"
proof (induction ds arbitrary: reg rs ms)
  case Nil
  show ?case by simp
next
  case (Cons d ds)
  obtain reg' rs' ms' where st: "matchStep now (reg, rs, ms) d = (reg', rs', ms')"
    by (cases "matchStep now (reg, rs, ms) d") auto
  from Cons.prems(3) st have un: "i \<notin> set (snd (snd (foldl (matchStep now) (reg', rs', ms') ds)))"
    by simp
  with loop_matched_mono [of ms' now reg' rs' ds] have "i \<notin> set ms'"
    by auto
  with matchStep_unmatched_lookup [OF Cons.prems(1,2), of now rs ms d] st
  have one: "map_of (trackedFaces reg') i = map_of (trackedFaces reg) i"
    by simp
  have "ids_ok reg'" "i \<in> set (keys reg')"
    using st matchStep_ids_ok [OF Cons.prems(1), of now rs ms d]
      matchStep_keys_mono [of reg now rs ms d] Cons.prems(2)
    by auto
  from Cons.IH [OF this un] one st show ?case
    by simp
qed

lemma loop_mask_preserved:
  "ids_ok reg \<Longrightarrow> map_of (trackedFaces reg) i = Some t \<Longrightarrow>
   \<exists>t1. map_of (trackedFaces (fst (foldl (matchStep now) (reg, rs, ms) ds))) i = Some t1
        \<and> maskNumber t1 = maskNumber t"
proof (induction ds arbitrary: reg rs ms t)
  case Nil
  then show ?case by simp
next
  case (Cons d ds)
  obtain reg' rs' ms' where st: "matchStep now (reg, rs, ms) d = (reg', rs', ms')"
    by (cases "matchStep now (reg, rs, ms) d") auto
  from matchStep_mask_preserved [OF Cons.prems, of now rs ms d] st
  obtain t1 where t1: "map_of (trackedFaces reg') i = Some t1" "maskNumber t1 = maskNumber t"
    by auto
  have "ids_ok reg'"
    using st matchStep_ids_ok [OF Cons.prems(1), of now rs ms d] by simp
  from Cons.IH [OF this t1(1), of rs' ms'] t1(2) st show ?case
    by simp
qed

lemma loop_keys_new:
  "k \<in> set (keys (fst (foldl (matchStep now) (reg, rs, ms) ds))) \<Longrightarrow>
   k \<in> set (keys reg) \<or> nextFaceId reg \<le> face_number k"
proof (induction ds arbitrary: reg rs ms)
  case Nil
  then show ?case by simp
next
  case (Cons d ds)
  obtain reg' rs' ms' where st: "matchStep now (reg, rs, ms) d = (reg', rs', ms')"
    by (cases "matchStep now (reg, rs, ms) d") auto
  from Cons.IH [of reg' rs' ms'] Cons.prems st
  have "k \<in> set (keys reg') \<or> nextFaceId reg' \<le> face_number k"
    by simp
  with matchStep_keys_new [of k now reg rs ms d] matchStep_nextFaceId [of reg now rs ms d] st
  show ?case
    by auto
qed


lemma map_of_counted_filter:
  "map_of (map (countMissing m) (filter (\<lambda>e. fst e \<notin> R) al)) i =
     (if i \<in> R then None else map_option (\<lambda>t. snd (countMissing m (i, t))) (map_of al i))"
proof (induction al)
  case Nil
  show ?case by simp
next
  case (Cons e al)
  obtain k t where e: "e = (k, t)" by (cases e)
  have f: "fst (countMissing m (k, t)) = k"
    by simp
  obtain t' where c: "countMissing m (k, t) = (k, t')"
    using f by (cases "countMissing m (k, t)") auto
  from Cons e c show ?case
    by auto
qed

lemma cleanup_lookup:
  "map_of (trackedFaces (cleanup now reg m)) i =
     (if i \<in> set (removed reg now m) then None
      else map_option (\<lambda>t. snd (countMissing m (i, t))) (map_of (trackedFaces reg) i))"
  by (simp only: cleanup_tracks map_of_counted_filter)

lemma removed_missing:
  assumes "(i, t) \<in> set (trackedFaces reg)" and "i \<notin> set m"
    and "maxFramesMissing reg < framesMissing t + 1"
  shows "i \<in> set (removed reg now m)"
proof -
  have "i \<in> set (toRemove reg now m (countMissing m (i, t)))"
    using assms(2,3) by (simp add: toRemove_def countMissing_def)
  with assms(1) show ?thesis
    by (auto simp: removed_def)
qed

lemma keys_lookup: "i \<in> set (keys reg) \<longleftrightarrow> map_of (trackedFaces reg) i \<noteq> None"
  by (simp add: keys_def map_of_eq_None_iff)

text \<open>One call, for a tracked face that no detection of the call matches.\<close>

lemma processDetections_unmatched:
  assumes "ids_ok reg" and "map_of (trackedFaces reg) i = Some t"
    and "i \<notin> set (snd (snd (matchLoop now reg (newDetections cf))))"
  shows "i \<notin> set (keys (fst (processDetections reg now cf)))
       \<or> (\<exists>t'. map_of (trackedFaces (fst (processDetections reg now cf))) i = Some t'
              \<and> framesMissing t' = framesMissing t + 1
              \<and> framesMissing t + 1 \<le> maxFramesMissing reg)"
proof -
  let ?loop = "matchLoop now reg (newDetections cf)"
  let ?reg1 = "fst ?loop"
  let ?m = "snd (snd ?loop)"
  let ?reg2 = "cleanup now ?reg1 ?m"
  have k: "i \<in> set (keys reg)"
    using assms(2) by (simp add: keys_lookup)
  have l1: "map_of (trackedFaces ?reg1) i = Some t"
    using loop_unmatched_lookup [OF assms(1) k, of now "[]" "[]" "newDetections cf"] assms(2,3)
    by (simp add: matchLoop_def)
  have mf: "maxFramesMissing ?reg1 = maxFramesMissing reg"
    by (simp add: matchLoop_def loop_config)
  have two: "i \<notin> set (keys ?reg2)
       \<or> (\<exists>t'. map_of (trackedFaces ?reg2) i = Some t'
              \<and> framesMissing t' = framesMissing t + 1
              \<and> framesMissing t + 1 \<le> maxFramesMissing reg)"
  proof (cases "i \<in> set (removed ?reg1 now ?m)")
    case True
    then show ?thesis
      by (simp add: keys_lookup cleanup_lookup)
  next
    case False
    from l1 have "(i, t) \<in> set (trackedFaces ?reg1)"
      by (rule map_of_SomeD)
    then have "\<not> maxFramesMissing ?reg1 < framesMissing t + 1"
      using removed_missing [of i t ?reg1 ?m now] assms(3) False by blast
    with mf have le: "framesMissing t + 1 \<le> maxFramesMissing reg"
      by linarith
    have "map_of (trackedFaces ?reg2) i = Some (snd (countMissing ?m (i, t)))"
      using False l1 by (simp add: cleanup_lookup)
    moreover have "framesMissing (snd (countMissing ?m (i, t))) = framesMissing t + 1"
      using assms(3) by (simp add: countMissing_def)
    ultimately show ?thesis
      using le by blast
  qed
  show ?thesis
  proof (cases "length cf = 0")
    case True
    then show ?thesis
      by (simp add: processDetections_fst keys_def)
  next
    case False
    with two show ?thesis
      by (simp add: processDetections_fst)
  qed
qed

lemma processDetections_keys_new:
  assumes "k \<in> set (keys (fst (processDetections reg now cf)))"
  shows "k \<in> set (keys reg) \<or> nextFaceId reg \<le> face_number k"
proof -
  from assms have "k \<in> set (keys (cleanup now (fst (matchLoop now reg (newDetections cf)))
      (snd (snd (matchLoop now reg (newDetections cf))))))"
    by (auto simp: processDetections_fst keys_def split: if_splits)
  then have "k \<in> set (keys (fst (matchLoop now reg (newDetections cf))))"
    by (simp add: cleanup_keys)
  then show ?thesis
    using loop_keys_new [of k now reg "[]" "[]" "newDetections cf"] by (simp add: matchLoop_def)
qed

lemma processDetections_nextFaceId:
  "nextFaceId reg \<le> nextFaceId (fst (processDetections reg now cf))"
  by (simp add: processDetections_fst cleanup_config matchLoop_def loop_nextFaceId)

lemma stay_absent:
  "ids_ok reg \<Longrightarrow> face_number i < nextFaceId reg \<Longrightarrow> i \<notin> set (keys reg) \<Longrightarrow>
   i \<notin> set (keys (run reg frames))"
proof (induction reg frames rule: run.induct)
  case (1 reg)
  then show ?case by simp
next
  case (2 reg now currentFaces rest)
  let ?reg' = "fst (processDetections reg now currentFaces)"
  have "ids_ok ?reg'"
    by (rule processDetections_ids_ok [OF "2.prems"(1)])
  moreover have "face_number i < nextFaceId ?reg'"
    using "2.prems"(2) processDetections_nextFaceId [of reg now currentFaces] by simp
  moreover have "i \<notin> set (keys ?reg')"
    using processDetections_keys_new [of i reg now currentFaces] "2.prems"(2,3) by auto
  ultimately show ?case
    using "2.IH" by simp
qed

lemma expire:
  "ids_ok reg \<Longrightarrow> map_of (trackedFaces reg) i = Some t \<Longrightarrow> unmatched_in i reg frames \<Longrightarrow>
   frames \<noteq> [] \<Longrightarrow> maxFramesMissing reg < framesMissing t + length frames \<Longrightarrow>
   i \<notin> set (keys (run reg frames))"
proof (induction reg frames arbitrary: t rule: run.induct)
  case (1 reg)
  then show ?case by simp
next
  case (2 reg now currentFaces rest)
  let ?reg' = "fst (processDetections reg now currentFaces)"
  have ok: "ids_ok ?reg'"
    by (rule processDetections_ids_ok [OF "2.prems"(1)])
  have un: "i \<notin> set (snd (snd (matchLoop now reg (newDetections currentFaces))))"
    and rest: "unmatched_in i ?reg' rest"
    using "2.prems"(3) by simp_all
  have fresh: "face_number i < nextFaceId reg"
    using "2.prems"(1,2) by (auto simp: ids_ok_def list_all_iff keys_def dest: map_of_SomeD)
  from processDetections_unmatched [OF "2.prems"(1,2) un]
  show ?case
  proof
    assume "i \<notin> set (keys ?reg')"
    moreover have "face_number i < nextFaceId ?reg'"
      using fresh processDetections_nextFaceId [of reg now currentFaces] by simp
    ultimately show ?thesis
      using stay_absent [OF ok] by simp
  next
    assume "\<exists>t'. map_of (trackedFaces ?reg') i = Some t'
              \<and> framesMissing t' = framesMissing t + 1
              \<and> framesMissing t + 1 \<le> maxFramesMissing reg"
    then obtain t' where t': "map_of (trackedFaces ?reg') i = Some t'"
      "framesMissing t' = framesMissing t + 1" "framesMissing t + 1 \<le> maxFramesMissing reg"
      by blast
    from t'(3) "2.prems"(5) have ne: "rest \<noteq> []"
      by auto
    have "maxFramesMissing ?reg' < framesMissing t' + length rest"
      using t'(2) "2.prems"(5) by (simp add: processDetections_config)
    from "2.IH" [OF ok t'(1) rest ne this] show ?thesis
      by simp
  qed
qed


lemma within_capacity_append:
  "within_capacity reg (fs @ gs) \<longleftrightarrow> within_capacity reg fs \<and> within_capacity (run reg fs) gs"
  by (induction reg fs rule: run.induct) auto

lemma slot_released:
  assumes "ids_ok reg" and "slots_ok reg" and "distinct (slots reg)"
    and "length (trackedFaces (fst (matchLoop now reg (newDetections cf)))) \<le> maxFaces reg"
    and "map_of (trackedFaces reg) i = Some t"
    and "i \<notin> set (keys (fst (processDetections reg now cf)))"
  shows "maskNumber t \<notin> usedMasks (fst (processDetections reg now cf))"
    and "getNextMaskNumber (fst (processDetections reg now cf)) \<le> maskNumber t"
proof -
  let ?loop = "matchLoop now reg (newDetections cf)"
  let ?reg1 = "fst ?loop"
  let ?m = "snd (snd ?loop)"
  let ?reg' = "fst (processDetections reg now cf)"
  have d1: "distinct (slots ?reg1)"
    using loop_distinct [OF assms(1,2,3), of now "[]" "[]" "newDetections cf"] assms(4)
    by (simp add: matchLoop_def)
  from loop_mask_preserved [OF assms(1,5), of now "[]" "[]" "newDetections cf"]
  obtain t1 where t1: "map_of (trackedFaces ?reg1) i = Some t1" "maskNumber t1 = maskNumber t"
    by (auto simp: matchLoop_def)
  then have in1: "(i, t1) \<in> set (trackedFaces ?reg1)"
    by (simp add: map_of_SomeD)
  from d1 have inj: "inj_on (\<lambda>e. maskNumber (snd e)) (set (trackedFaces ?reg1))"
    by (simp add: slots_def distinct_map)
  show free: "maskNumber t \<notin> usedMasks ?reg'"
  proof
    assume "maskNumber t \<in> usedMasks ?reg'"
    then have ne: "length cf \<noteq> 0" and "maskNumber t \<in> set (slots (cleanup now ?reg1 ?m))"
      by (auto simp: usedMasks_slots processDetections_fst slots_def split: if_splits)
    then obtain e where e: "e \<in> set (trackedFaces ?reg1)" "fst e \<notin> set (removed ?reg1 now ?m)"
      "maskNumber (snd e) = maskNumber t"
      by (auto simp: cleanup_slots)
    from inj_onD [OF inj _ e(1) in1] e(3) t1(2) have "e = (i, t1)"
      by simp
    moreover have "i \<in> set (keys ?reg1)"
      using in1 by (force simp: keys_def)
    ultimately have "i \<in> set (keys (cleanup now ?reg1 ?m))"
      using e(2) by (simp add: cleanup_keys)
    with ne assms(6) show False
      by (simp add: processDetections_fst)
  qed
  have "(i, t) \<in> set (trackedFaces reg)"
    using assms(5) by (simp add: map_of_SomeD)
  with assms(2) have "1 \<le> maskNumber t" "maskNumber t \<le> maxFaces ?reg'"
    by (auto simp: slots_ok_def slots_def list_all_iff processDetections_config)
  from getNextMaskNumber_free(2) [OF free this]
  show "getNextMaskNumber ?reg' \<le> maskNumber t" .
qed

text \<open>The clean-up, key by key, when the keys are distinct.\<close>

lemma toRemove_member:
  "i \<in> set (toRemove reg now m (countMissing m (k, t))) \<longleftrightarrow>
     k = i \<and> ((i \<notin> set m \<and> maxFramesMissing reg < framesMissing t + 1)
              \<or> maxFaceAge reg < now - lastSeen t)"
  by (auto simp: toRemove_def countMissing_def)

lemma removed_iff:
  assumes "distinct (map fst (trackedFaces reg))" and "map_of (trackedFaces reg) i = Some t"
  shows "i \<in> set (removed reg now m) \<longleftrightarrow>
     (i \<notin> set m \<and> maxFramesMissing reg < framesMissing t + 1) \<or> maxFaceAge reg < now - lastSeen t"
proof -
  have mem: "(i, t') \<in> set (trackedFaces reg) \<longleftrightarrow> t' = t" for t'
    using assms by (metis map_of_SomeD map_of_is_SomeI option.inject)
  have "i \<in> set (removed reg now m) \<longleftrightarrow>
      (\<exists>e \<in> set (trackedFaces reg). i \<in> set (toRemove reg now m (countMissing m e)))"
    by (simp add: removed_def)
  also have "\<dots> \<longleftrightarrow> (\<exists>k t'. (k, t') \<in> set (trackedFaces reg)
      \<and> i \<in> set (toRemove reg now m (countMissing m (k, t'))))"
    by auto
  also have "\<dots> \<longleftrightarrow> (\<exists>t'. (i, t') \<in> set (trackedFaces reg)
      \<and> ((i \<notin> set m \<and> maxFramesMissing reg < framesMissing t' + 1)
              \<or> maxFaceAge reg < now - lastSeen t'))"
    unfolding toRemove_member by blast
  also have "\<dots> \<longleftrightarrow> (i \<notin> set m \<and> maxFramesMissing reg < framesMissing t + 1)
      \<or> maxFaceAge reg < now - lastSeen t"
    unfolding mem by blast
  finally show ?thesis .
qed

lemma processDetections_all_discarded:
  assumes "cf \<noteq> []" and "newDetections cf = []"
  shows "processDetections reg now cf = (cleanup now reg [], [])"
  using assms by (simp add: processDetections_def matchLoop_Nil Let_def)

lemma cleanup_unmatched_lookup:
  assumes "distinct (map fst (trackedFaces reg))" and "map_of (trackedFaces reg) i = Some t"
  shows "map_of (trackedFaces (cleanup now reg [])) i =
     (if maxFramesMissing reg < framesMissing t + 1 \<or> maxFaceAge reg < now - lastSeen t
      then None else Some (t\<lparr>framesMissing := framesMissing t + 1\<rparr>))"
  using assms removed_iff [OF assms, of now "[]"]
  by (simp add: cleanup_lookup countMissing_def)

section \<open>A detection within its call\<close>

lemma matchLoop_split:
  assumes "matchLoop now reg0 ds = (reg, rs, ms)"
  shows "matchLoop now reg0 (ds @ d # ds') =
           foldl (matchStep now) (matchStep now (reg, rs, ms) d) ds'"
  using assms by (simp add: matchLoop_def)

lemma matchLoop_results_length:
  "length (fst (snd (matchLoop now reg0 ds))) = length ds"
  using loop_results [of now reg0 "[]" "[]" ds]
  by (auto simp: matchLoop_def dest: list_all2_lengthD)

lemma processDetections_nonempty:
  assumes "cf \<noteq> []"
  shows "processDetections reg0 now cf =
     (cleanup now (fst (matchLoop now reg0 (newDetections cf)))
        (snd (snd (matchLoop now reg0 (newDetections cf)))),
      fst (snd (matchLoop now reg0 (newDetections cf))))"
  using assms by (simp add: processDetections_def Let_def split: prod.splits)

lemma processDetections_entry_at:
  assumes "cf \<noteq> []" and "newDetections cf = ds @ d # ds'"
    and "matchLoop now reg0 ds = (reg, rs, ms)"
    and "fst (snd (matchStep now (reg, rs, ms) d)) = rs @ [e]"
  shows "snd (processDetections reg0 now cf) ! length ds = e"
    and "length (snd (processDetections reg0 now cf)) = length (newDetections cf)"
proof -
  obtain reg1 rs1 ms1 where st: "matchStep now (reg, rs, ms) d = (reg1, rs1, ms1)"
    by (cases "matchStep now (reg, rs, ms) d") auto
  with assms(4) have rs1: "rs1 = rs @ [e]"
    by simp
  from loop_results [of now reg1 rs1 ms1 ds'] obtain new where
    new: "fst (snd (foldl (matchStep now) (reg1, rs1, ms1) ds')) = rs1 @ new"
    by blast
  have len: "length rs = length ds"
    using matchLoop_results_length [of now reg0 ds] assms(3) by simp
  have "fst (snd (matchLoop now reg0 (newDetections cf))) = rs @ e # new"
    using matchLoop_split [OF assms(3), of d ds'] assms(2) st new rs1 by simp
  then have "snd (processDetections reg0 now cf) = rs @ e # new"
    by (simp add: processDetections_nonempty [OF assms(1)])
  with len show "snd (processDetections reg0 now cf) ! length ds = e"
    by (metis nth_append_length)
  show "length (snd (processDetections reg0 now cf)) = length (newDetections cf)"
    using matchLoop_results_length [of now reg0 "newDetections cf"]
    by (simp add: processDetections_nonempty [OF assms(1)])
qed

text \<open>
  A face seen in this call (its counter is \<open>0\<close> and it was last seen now) stays so through
  the rest of the matching loop, with its mask number and its first sighting.
\<close>

lemma matchStep_seen_preserved:
  assumes "ids_ok reg" and "map_of (trackedFaces reg) i = Some t"
    and "framesMissing t = 0" and "lastSeen t = now"
  shows "\<exists>t1. map_of (trackedFaces (fst (matchStep now (reg, rs, ms) d))) i = Some t1
             \<and> maskNumber t1 = maskNumber t \<and> firstSeen t1 = firstSeen t
             \<and> framesMissing t1 = 0 \<and> lastSeen t1 = now"
proof (cases rule: matchStep_cases [of reg d])
  case (match fid t' s)
  then have "(fid, t') \<in> set (trackedFaces reg)"
    using findBestMatch_Some(1) by force
  with assms(1) have "map_of (trackedFaces reg) fid = Some t'"
    by (simp add: ids_ok_def keys_def)
  with assms(2,3,4) match show ?thesis
    by (cases "fid = i") (auto simp: matchStep_match update_conv')
next
  case new
  from assms(2) have "i \<in> fst ` set (trackedFaces reg)"
    by (metis map_of_eq_None_iff option.distinct(1))
  with fresh_key [OF assms(1)] have "Face (nextFaceId reg) \<noteq> i"
    by auto
  with new assms(2,3,4) show ?thesis
    by (simp add: matchStep_new update_conv')
qed

lemma loop_seen_preserved:
  "ids_ok reg \<Longrightarrow> map_of (trackedFaces reg) i = Some t \<Longrightarrow>
   framesMissing t = 0 \<Longrightarrow> lastSeen t = now \<Longrightarrow>
   \<exists>t1. map_of (trackedFaces (fst (foldl (matchStep now) (reg, rs, ms) ds))) i = Some t1
        \<and> maskNumber t1 = maskNumber t \<and> firstSeen t1 = firstSeen t
        \<and> framesMissing t1 = 0 \<and> lastSeen t1 = now"
proof (induction ds arbitrary: reg rs ms t)
  case Nil
  then show ?case by simp
next
  case (Cons d ds)
  obtain reg' rs' ms' where st: "matchStep now (reg, rs, ms) d = (reg', rs', ms')"
    by (cases "matchStep now (reg, rs, ms) d") auto
  from matchStep_seen_preserved [OF Cons.prems, of rs ms d] st
  obtain t1 where t1: "map_of (trackedFaces reg') i = Some t1" "maskNumber t1 = maskNumber t"
    "firstSeen t1 = firstSeen t" "framesMissing t1 = 0" "lastSeen t1 = now"
    by auto
  have ok: "ids_ok reg'"
    using st matchStep_ids_ok [OF Cons.prems(1), of now rs ms d] by simp
  have "\<exists>t2. map_of (trackedFaces (fst (foldl (matchStep now) (reg', rs', ms') ds))) i = Some t2
        \<and> maskNumber t2 = maskNumber t1 \<and> firstSeen t2 = firstSeen t1
        \<and> framesMissing t2 = 0 \<and> lastSeen t2 = now"
    by (rule Cons.IH [OF ok t1(1) t1(4) t1(5)])
  with t1 st show ?case
    by simp
qed

lemma cleanup_keeps:
  assumes "ids_ok reg" and "map_of (trackedFaces reg) i = Some t"
    and "lastSeen t = now" and "0 \<le> maxFaceAge reg"
    and "i \<in> set m \<or> framesMissing t + 1 \<le> maxFramesMissing reg"
  shows "map_of (trackedFaces (cleanup now reg m)) i = Some (snd (countMissing m (i, t)))"
proof -
  have d: "distinct (map fst (trackedFaces reg))"
    using assms(1) by (simp add: ids_ok_def keys_def)
  have "i \<notin> set (removed reg now m)"
    using removed_iff [OF d assms(2), of now m] assms(3,4,5) by auto
  with assms(2) show ?thesis
    by (simp add: cleanup_lookup)
qed

text \<open>The face a detection matched or created is tracked when the call returns.\<close>

lemma processDetections_keeps:
  assumes "cf \<noteq> []" and "newDetections cf = ds @ d # ds'"
    and "matchLoop now reg0 ds = (reg, rs, ms)"
    and "ids_ok reg" and "0 \<le> maxFaceAge reg"
    and "map_of (trackedFaces (fst (matchStep now (reg, rs, ms) d))) i = Some t1"
    and "framesMissing t1 = 0" and "lastSeen t1 = now"
    and "i \<in> set (snd (snd (matchStep now (reg, rs, ms) d))) \<or> 1 \<le> maxFramesMissing reg"
  shows "\<exists>t2. map_of (trackedFaces (fst (processDetections reg0 now cf))) i = Some t2
             \<and> maskNumber t2 = maskNumber t1 \<and> firstSeen t2 = firstSeen t1
             \<and> lastSeen t2 = now \<and> framesMissing t2 \<le> 1
             \<and> (i \<in> set (snd (snd (matchStep now (reg, rs, ms) d))) \<longrightarrow> framesMissing t2 = 0)
             \<and> (ds' = [] \<and> i \<in> set (snd (snd (matchStep now (reg, rs, ms) d))) \<longrightarrow> t2 = t1)"
proof -
  obtain reg1 rs1 ms1 where st: "matchStep now (reg, rs, ms) d = (reg1, rs1, ms1)"
    by (cases "matchStep now (reg, rs, ms) d") auto
  let ?L = "foldl (matchStep now) (reg1, rs1, ms1) ds'"
  have L: "matchLoop now reg0 (newDetections cf) = ?L"
    using matchLoop_split [OF assms(3), of d ds'] assms(2) st by simp
  have ok1: "ids_ok reg1"
    using st matchStep_ids_ok [OF assms(4), of now rs ms d] by simp
  have okL: "ids_ok (fst ?L)"
    by (rule loop_ids_ok [OF ok1])
  have cfg: "maxFaceAge (fst ?L) = maxFaceAge reg" "maxFramesMissing (fst ?L) = maxFramesMissing reg"
    using loop_config [of now reg1 rs1 ms1 ds'] matchStep_config [of now reg rs ms d] st
    by simp_all
  from assms(6) st have l1: "map_of (trackedFaces reg1) i = Some t1"
    by simp
  from loop_seen_preserved [OF ok1 l1 assms(7,8), of rs1 ms1 ds']
  obtain tL where tL: "map_of (trackedFaces (fst ?L)) i = Some tL" "maskNumber tL = maskNumber t1"
    "firstSeen tL = firstSeen t1" "framesMissing tL = 0" "lastSeen tL = now"
    by blast
  have mono: "set ms1 \<subseteq> set (snd (snd ?L))"
    by (rule loop_matched_mono)
  have cond: "i \<in> set (snd (snd ?L)) \<or> framesMissing tL + 1 \<le> maxFramesMissing (fst ?L)"
    using assms(9) st mono tL(4) cfg(2) by auto
  have age: "0 \<le> maxFaceAge (fst ?L)"
    using assms(5) cfg(1) by simp
  let ?t2 = "snd (countMissing (snd (snd ?L)) (i, tL))"
  have look: "map_of (trackedFaces (fst (processDetections reg0 now cf))) i = Some ?t2"
    using cleanup_keeps [OF okL tL(1) tL(5) age cond]
    by (simp add: processDetections_nonempty [OF assms(1)] L)
  have p: "maskNumber ?t2 = maskNumber t1" "firstSeen ?t2 = firstSeen t1" "lastSeen ?t2 = now"
    "framesMissing ?t2 \<le> 1"
    using tL by (simp_all add: countMissing_def)
  have q: "i \<in> set (snd (snd (matchStep now (reg, rs, ms) d))) \<longrightarrow> framesMissing ?t2 = 0"
    using st mono tL(4) by (auto simp: countMissing_def)
  have r: "ds' = [] \<and> i \<in> set (snd (snd (matchStep now (reg, rs, ms) d))) \<longrightarrow> ?t2 = t1"
    using st l1 tL(1) by (auto simp: countMissing_def)
  from look p q r show ?thesis
    by blast
qed


section \<open>Smoothing\<close>

lemma lerp_error: "lerp a b t - b = (a - b) * (1 - t)"
  by (simp add: lerp_def algebra_simps)

lemma find_map_key:
  assumes "\<And>x. P (h x) = Q x"
  shows "find P (map h xs) = map_option h (find Q xs)"
  using assms by (induction xs) auto

lemma faceId_smoothOne: "pose_faceId (toPrev (smoothOne g prev f)) = faceId f"
  by (simp add: toPrev_def smoothOne_def rawPose_def Let_def split: option.splits prod.splits)

lemma smoothOne_cached:
  assumes "find (\<lambda>data. pose_faceId data = faceId f) prev = Some p"
  shows "smoothOne g prev f =
     \<lparr>pose_faceId = faceId f,
      pose_x = pose_x p + (pose_x (rawPose g f) - pose_x p) * 0.2,
      pose_y = pose_y p + (pose_y (rawPose g f) - pose_y p) * 0.2,
      pose_rotation = pose_rotation p + (pose_rotation (rawPose g f) - pose_rotation p) * 0.2,
      pose_size = pose_size p + (pose_size (rawPose g f) - pose_size p) * 0.2,
      pose_maskNumber = maskNumber f\<rparr>"
  using assms by (simp add: smoothOne_def Let_def lerp_def smoothingFactor_def)

lemma smoothOne_first:
  assumes "find (\<lambda>data. pose_faceId data = faceId f) prev = None"
  shows "smoothOne g prev f = rawPose g f"
  using assms by (simp add: smoothOne_def Let_def)

lemma cache_lookup:
  assumes "find (\<lambda>f. faceId f = i) tracked = Some f"
  shows "find (\<lambda>d. pose_faceId d = i) (fst (smoothFaces g prev tracked)) =
           Some (toPrev (smoothOne g prev f))"
proof -
  from assms have ne: "tracked \<noteq> []"
    by auto
  have "find (\<lambda>d. pose_faceId d = i) (map (\<lambda>x. toPrev (smoothOne g prev x)) tracked) =
          map_option (\<lambda>x. toPrev (smoothOne g prev x)) (find (\<lambda>f. faceId f = i) tracked)"
    by (rule find_map_key) (simp add: faceId_smoothOne)
  with ne assms show ?thesis
    by (simp add: smoothFaces_def Let_def comp_def)
qed

lemma smoothRun_error:
  "find (\<lambda>d. pose_faceId d = i) prev = Some p0 \<Longrightarrow> list_all (held g i target) frames \<Longrightarrow>
   \<exists>pN. find (\<lambda>d. pose_faceId d = i) (smoothRun g prev frames) = Some pN
      \<and> pose_x pN - pose_x target = (pose_x p0 - pose_x target) * (1 - smoothingFactor) ^ length frames
      \<and> pose_y pN - pose_y target = (pose_y p0 - pose_y target) * (1 - smoothingFactor) ^ length frames
      \<and> pose_rotation pN - pose_rotation target =
          (pose_rotation p0 - pose_rotation target) * (1 - smoothingFactor) ^ length frames
      \<and> pose_size pN - pose_size target =
          (pose_size p0 - pose_size target) * (1 - smoothingFactor) ^ length frames"
proof (induction frames arbitrary: prev p0)
  case Nil
  then show ?case by simp
next
  case (Cons tracked frames)
  from Cons.prems(2) have h: "held g i target tracked" and rest: "list_all (held g i target) frames"
    by simp_all
  from h obtain f where f: "find (\<lambda>f. faceId f = i) tracked = Some f"
    "toPrev (rawPose g f) = target"
    by (auto simp: held_def split: option.splits)
  from f(1) have id: "faceId f = i"
    by (auto simp: find_Some_iff)
  let ?p1 = "toPrev (smoothOne g prev f)"
  have look: "find (\<lambda>d. pose_faceId d = i) (fst (smoothFaces g prev tracked)) = Some ?p1"
    by (rule cache_lookup [OF f(1)])
  from f(2) have tgt: "pose_x (rawPose g f) = pose_x target" "pose_y (rawPose g f) = pose_y target"
    "pose_rotation (rawPose g f) = pose_rotation target" "pose_size (rawPose g f) = pose_size target"
    by (auto simp: toPrev_def)
  have one: "pose_x ?p1 - pose_x target = (pose_x p0 - pose_x target) * (1 - smoothingFactor)"
    "pose_y ?p1 - pose_y target = (pose_y p0 - pose_y target) * (1 - smoothingFactor)"
    "pose_rotation ?p1 - pose_rotation target =
       (pose_rotation p0 - pose_rotation target) * (1 - smoothingFactor)"
    "pose_size ?p1 - pose_size target = (pose_size p0 - pose_size target) * (1 - smoothingFactor)"
    using Cons.prems(1) id tgt
    by (simp_all add: smoothOne_def Let_def toPrev_def lerp_error)
  from Cons.IH [OF look rest] obtain pN where
    pN: "find (\<lambda>d. pose_faceId d = i) (smoothRun g (fst (smoothFaces g prev tracked)) frames) = Some pN"
    "pose_x pN - pose_x target = (pose_x ?p1 - pose_x target) * (1 - smoothingFactor) ^ length frames"
    "pose_y pN - pose_y target = (pose_y ?p1 - pose_y target) * (1 - smoothingFactor) ^ length frames"
    "pose_rotation pN - pose_rotation target =
       (pose_rotation ?p1 - pose_rotation target) * (1 - smoothingFactor) ^ length frames"
    "pose_size pN - pose_size target =
       (pose_size ?p1 - pose_size target) * (1 - smoothingFactor) ^ length frames"
    by blast
  have "find (\<lambda>d. pose_faceId d = i) (smoothRun g prev (tracked # frames)) = Some pN"
    using pN(1) by simp
  moreover have "pose_x pN - pose_x target =
      (pose_x p0 - pose_x target) * (1 - smoothingFactor) ^ length (tracked # frames)"
    using pN(2) one(1) by simp
  moreover have "pose_y pN - pose_y target =
      (pose_y p0 - pose_y target) * (1 - smoothingFactor) ^ length (tracked # frames)"
    using pN(3) one(2) by simp
  moreover have "pose_rotation pN - pose_rotation target =
      (pose_rotation p0 - pose_rotation target) * (1 - smoothingFactor) ^ length (tracked # frames)"
    using pN(4) one(3) by simp
  moreover have "pose_size pN - pose_size target =
      (pose_size p0 - pose_size target) * (1 - smoothingFactor) ^ length (tracked # frames)"
    using pN(5) one(4) by simp
  ultimately show ?case
    by blast
qed

lemma abs_error:
  fixes a b c :: real
  assumes "a - b = (c - b) * (1 - smoothingFactor) ^ n"
  shows "\<bar>a - b\<bar> = \<bar>c - b\<bar> * (1 - 0.2) ^ n"
proof -
  have "\<bar>(c - b) * (1 - smoothingFactor) ^ n\<bar> = \<bar>c - b\<bar> * (1 - 0.2) ^ n"
    by (simp add: abs_mult smoothingFactor_def power_abs)
  with assms show ?thesis by simp
qed


section \<open>The extractors\<close>

text \<open>
  Claim C10. When the four eye corners (landmarks 33, 133, 362, 263) are present and the
  nose tip (landmark 1) is missing, \<open>calculateFaceCenter\<close> returns a center and not
  \<open>null\<close>: the center between the eyes, moved down by \<open>0.6\<close> times the fixed distance
  \<open>0.03\<close>.
\<close>

theorem calculateFaceCenter_without_nose:
  assumes "landmark_at lms 33 = Some a" and "landmark_at lms 133 = Some b"
    and "landmark_at lms 362 = Some c" and "landmark_at lms 263 = Some d"
    and "landmark_at lms 1 = None"
  shows "calculateFaceCenter (Some lms) =
           Some \<lparr>px = ((px a + px b) / 2 + (px c + px d) / 2) / 2,
                 py = ((py a + py b) / 2 + (py c + py d) / 2) / 2 + 0.03 * 0.6\<rparr>"
proof -
  from assms(1) have "lms \<noteq> []"
    by (auto simp: landmark_at_def)
  with assms show ?thesis
    by (simp add: calculateFaceCenter_def calculateFaceCenter_try_def midpoint_of_def)
qed

theorem calculateFaceCenter_without_nose_witness:
  "landmark_at ((replicate 363 (Some \<lparr>px = 0.5, py = 0.4\<rparr>))[1 := None]) 33 = Some \<lparr>px = 0.5, py = 0.4\<rparr>
   \<and> landmark_at ((replicate 363 (Some \<lparr>px = 0.5, py = 0.4\<rparr>))[1 := None]) 1 = None
   \<and> calculateFaceCenter (Some ((replicate 363 (Some \<lparr>px = 0.5, py = 0.4\<rparr>))[1 := None])) =
         Some \<lparr>px = 0.5, py = 0.418\<rparr>"
proof -
  let ?p = "\<lparr>px = 0.5, py = 0.4\<rparr>"
  let ?lms = "(replicate 363 (Some ?p))[1 := None]"
  have h: "landmark_at ?lms 33 = Some ?p" "landmark_at ?lms 133 = Some ?p"
    "landmark_at ?lms 362 = Some ?p" "landmark_at ?lms 263 = Some ?p"
    by (simp_all add: landmark_at_def)
  have n: "landmark_at ?lms 1 = None"
    by (simp add: landmark_at_def)
  from calculateFaceCenter_without_nose [OF h n] h(1) n show ?thesis
    by simp
qed



text \<open>
  Claim C9. No operation raises. The bodies of \<open>calculateFaceCenter\<close> and
  \<open>calculateFaceSize\<close> guard every landmark they read and never throw; the body of
  \<open>calculateHeadRotation\<close> throws a \<open>TypeError\<close> on a missing eye corner, which its
  \<open>catch\<close> turns into the rotation \<open>0\<close>. Absent, empty or incomplete landmarks give the
  center \<open>null\<close>, the size \<open>0.2\<close> and the rotation \<open>0\<close>; a similarity that is \<open>NaN\<close>
  matches nothing. \<open>processDetections\<close> returns one entry for each detection that has a
  center, in input order, carrying that detection's index, landmarks, center, size and
  rotation (and no entry at all for an empty input).
\<close>

theorem never_raises:
  "(\<forall>e. calculateFaceCenter_try lms \<noteq> Inl e) \<and> (\<forall>e. calculateFaceSize_try lms \<noteq> Inl e)
   \<and> calculateFaceCenter None = None \<and> calculateFaceCenter (Some []) = None
   \<and> calculateFaceSize None = 0.2 \<and> calculateFaceSize (Some []) = 0.2
   \<and> calculateHeadRotation None = 0 \<and> calculateHeadRotation (Some []) = 0
   \<and> (landmark_at lms 33 = None \<or> landmark_at lms 133 = None
        \<or> landmark_at lms 362 = None \<or> landmark_at lms 263 = None \<longrightarrow>
      calculateFaceCenter (Some lms) = None \<and> calculateHeadRotation_try lms = Inl TypeError
      \<and> calculateHeadRotation (Some lms) = 0)
   \<and> (landmark_at lms 10 = None \<or> landmark_at lms 152 = None
        \<or> landmark_at lms 234 = None \<or> landmark_at lms 454 = None \<longrightarrow>
      calculateFaceSize (Some lms) = 0.2)
   \<and> (calculateSimilarity reg d t = None \<longrightarrow> (\<forall>fid s. findBestMatch reg d \<noteq> Some (fid, t, s)))
   \<and> map detectionIndex (snd (processDetections reg now cf)) =
       filter (\<lambda>i. calculateFaceCenter (cf ! i) \<noteq> None) [0 ..< length cf]
   \<and> (\<forall>r \<in> set (snd (processDetections reg now cf)).
        detectionIndex r < length cf \<and> landmarks r = cf ! detectionIndex r
        \<and> calculateFaceCenter (landmarks r) = Some (center r)
        \<and> face_size r = calculateFaceSize (landmarks r)
        \<and> rotation r = calculateHeadRotation (landmarks r))"
proof -
  have a: "calculateFaceCenter None = None \<and> calculateFaceCenter (Some []) = None
      \<and> calculateFaceSize None = 0.2 \<and> calculateFaceSize (Some []) = 0.2
      \<and> calculateHeadRotation None = 0 \<and> calculateHeadRotation (Some []) = 0"
    by (simp add: calculateFaceCenter_def calculateFaceSize_def calculateHeadRotation_def)
  have b: "calculateSimilarity reg d t = None \<longrightarrow> (\<forall>fid s. findBestMatch reg d \<noteq> Some (fid, t, s))"
    using findBestMatch_Some(2) by fastforce
  from a b calculateFaceCenter_try_total calculateFaceSize_try_total eye_corner_missing
    outline_missing processDetections_indices processDetections_entries
  show ?thesis
    by blast
qed


theorem never_raises_witness:
  "landmark_at [None] 33 = None
   \<and> calculateFaceCenter (Some [None]) = None
   \<and> calculateHeadRotation_try [None] = Inl TypeError
   \<and> calculateHeadRotation (Some [None]) = 0
   \<and> landmark_at [None] 10 = None
   \<and> calculateFaceSize (Some [None]) = 0.2
   \<and> calculateSimilarity new_FaceRegistry
         \<lparr>landmarks = None, center = \<lparr>px = 0.5, py = 0.5\<rparr>, face_size = 0, rotation = 0,
          originalIndex = 0\<rparr>
         \<lparr>landmarks = None, center = \<lparr>px = 0.5, py = 0.5\<rparr>, face_size = 0, rotation = 0,
          faceId = Face 1, maskNumber = 1, framesMissing = 0, firstSeen = 0, lastSeen = 0\<rparr> = None
   \<and> findBestMatch new_FaceRegistry
         \<lparr>landmarks = None, center = \<lparr>px = 0.5, py = 0.5\<rparr>, face_size = 0, rotation = 0,
          originalIndex = 0\<rparr>
       \<noteq> Some (Face 1,
           \<lparr>landmarks = None, center = \<lparr>px = 0.5, py = 0.5\<rparr>, face_size = 0, rotation = 0,
            faceId = Face 1, maskNumber = 1, framesMissing = 0, firstSeen = 0, lastSeen = 0\<rparr>, 1)
   \<and> map detectionIndex (snd (processDetections new_FaceRegistry 0 [None, face_at 0.5 0.5 0.2])) = [1]
   \<and> map center (snd (processDetections new_FaceRegistry 0 [None, face_at 0.5 0.5 0.2])) =
       [\<lparr>px = 0.5, py = 0.5\<rparr>]"
proof -
  let ?d = "\<lparr>landmarks = None, center = \<lparr>px = 0.5, py = 0.5\<rparr>, face_size = 0, rotation = 0,
          originalIndex = 0\<rparr>"
  let ?t = "\<lparr>landmarks = None, center = \<lparr>px = 0.5, py = 0.5\<rparr>, face_size = 0, rotation = 0,
          faceId = Face 1, maskNumber = 1, framesMissing = 0, firstSeen = 0, lastSeen = 0\<rparr>"
  let ?cf = "[None, face_at 0.5 0.5 0.2]"
  note inst = never_raises [of "[None]" new_FaceRegistry ?d ?t 0 ?cf]
  have h1: "landmark_at [None] 33 = None" and h2: "landmark_at [None] 10 = None"
    by (simp_all add: landmark_at_def)
  have h3: "calculateSimilarity new_FaceRegistry ?d ?t = None"
    by (simp add: calculateSimilarity_def unit_score_def calculateDistance_level new_FaceRegistry_def)
  have ev: "map center (snd (processDetections new_FaceRegistry 0 ?cf)) = [\<lparr>px = 0.5, py = 0.5\<rparr>]"
    by (simp add: eval_registry)
  have idx: "filter (\<lambda>i. calculateFaceCenter (?cf ! i) \<noteq> None) [0 ..< length ?cf] = [1]"
  proof -
    have "calculateFaceCenter None = None"
      by (simp add: calculateFaceCenter_def)
    then show ?thesis
      by (simp add: upt_rec center_face_at)
  qed
  from inst h1 h2 h3 ev idx show ?thesis
    by simp
qed


section \<open>An empty frame\<close>

text \<open>
  Claim C3, as the code has it. The registry is cleared when the list of detections
  passed to \<open>processDetections\<close> is itself empty; the result is empty whenever no detection
  is left after those without a center are discarded. When the list is not empty and all
  its detections are discarded, the tracked faces are not cleared: the call returns the
  registry after the ordinary clean-up with no face matched, in which every tracked face
  has its \<open>framesMissing\<close> counter incremented and is removed only if the counter then
  exceeds \<open>maxFramesMissing\<close> or the face was last seen more than \<open>maxFaceAge\<close> ago.
\<close>

theorem processDetections_empty_input:
  "(currentFaces = [] \<longrightarrow>
      trackedFaces (fst (processDetections reg now currentFaces)) = []
      \<and> snd (processDetections reg now currentFaces) = [])
   \<and> (newDetections currentFaces = [] \<longrightarrow> snd (processDetections reg now currentFaces) = [])
   \<and> (currentFaces \<noteq> [] \<and> newDetections currentFaces = [] \<longrightarrow>
        processDetections reg now currentFaces = (cleanup now reg [], [])
        \<and> (distinct (map fst (trackedFaces reg)) \<and> map_of (trackedFaces reg) i = Some t \<longrightarrow>
             map_of (trackedFaces (fst (processDetections reg now currentFaces))) i =
               (if maxFramesMissing reg < framesMissing t + 1 \<or> maxFaceAge reg < now - lastSeen t
                then None else Some (t\<lparr>framesMissing := framesMissing t + 1\<rparr>))))"
proof -
  have a: "(currentFaces = [] \<longrightarrow>
      trackedFaces (fst (processDetections reg now currentFaces)) = []
      \<and> snd (processDetections reg now currentFaces) = [])
   \<and> (newDetections currentFaces = [] \<longrightarrow> snd (processDetections reg now currentFaces) = [])"
    by (simp add: processDetections_def matchLoop_Nil newDetections_Nil Let_def)
  have b: "currentFaces \<noteq> [] \<and> newDetections currentFaces = [] \<longrightarrow>
        processDetections reg now currentFaces = (cleanup now reg [], [])"
    by (simp add: processDetections_all_discarded)
  have c: "currentFaces \<noteq> [] \<and> newDetections currentFaces = [] \<longrightarrow>
       (distinct (map fst (trackedFaces reg)) \<and> map_of (trackedFaces reg) i = Some t \<longrightarrow>
             map_of (trackedFaces (fst (processDetections reg now currentFaces))) i =
               (if maxFramesMissing reg < framesMissing t + 1 \<or> maxFaceAge reg < now - lastSeen t
                then None else Some (t\<lparr>framesMissing := framesMissing t + 1\<rparr>)))"
    by (simp add: processDetections_all_discarded cleanup_unmatched_lookup)
  from a b c show ?thesis
    by blast
qed


theorem processDetections_empty_input_witness:
  "trackedFaces (run new_FaceRegistry [(0, [face_at 0.5 0.5 0.2])]) \<noteq> []
   \<and> trackedFaces (fst (processDetections (run new_FaceRegistry [(0, [face_at 0.5 0.5 0.2])]) 33 [])) = []
   \<and> snd (processDetections (run new_FaceRegistry [(0, [face_at 0.5 0.5 0.2])]) 33 []) = []
   \<and> newDetections [None] = []
   \<and> snd (processDetections (run new_FaceRegistry [(0, [face_at 0.5 0.5 0.2])]) 33 [None]) = []
   \<and> [None] \<noteq> ([] :: landmarks option list)
   \<and> processDetections
         (run new_FaceRegistry [(0, [face_at 0.5 0.5 0.2]), (33, [face_at 0.5 0.5 0.2])]) 66 [None] =
       (cleanup 66 (run new_FaceRegistry [(0, [face_at 0.5 0.5 0.2]), (33, [face_at 0.5 0.5 0.2])]) [],
        [])
   \<and> distinct (map fst (trackedFaces
         (run new_FaceRegistry [(0, [face_at 0.5 0.5 0.2]), (33, [face_at 0.5 0.5 0.2])])))
   \<and> map_of (trackedFaces
         (run new_FaceRegistry [(0, [face_at 0.5 0.5 0.2]), (33, [face_at 0.5 0.5 0.2])])) (Face 1) =
       Some (track_at 1 1 0.5 0.5 0.2 0 0 33)
   \<and> map_of (trackedFaces (fst (processDetections
         (run new_FaceRegistry [(0, [face_at 0.5 0.5 0.2]), (33, [face_at 0.5 0.5 0.2])]) 66 [None])))
         (Face 1) =
       Some (track_at 1 1 0.5 0.5 0.2 1 0 33)"
proof -
  let ?reg = "run new_FaceRegistry [(0, [face_at 0.5 0.5 0.2])]"
  let ?reg2 = "run new_FaceRegistry [(0, [face_at 0.5 0.5 0.2]), (33, [face_at 0.5 0.5 0.2])]"
  let ?t = "track_at 1 1 0.5 0.5 0.2 0 0 33"
  have a: "trackedFaces ?reg \<noteq> []"
    by (simp add: eval_registry)
  have b: "newDetections [None] = []"
    by (simp add: newDetections_def List.map_filter_def toDetection_absent)
  have n: "[None] \<noteq> ([] :: landmarks option list)"
    by simp
  have d: "distinct (map fst (trackedFaces ?reg2))"
    and m: "map_of (trackedFaces ?reg2) (Face 1) = Some ?t"
    by (simp_all add: eval_registry track_at_def)
  have cfg: "maxFramesMissing ?reg2 = 1" "maxFaceAge ?reg2 = 2000"
    by (simp_all add: processDetections_config new_FaceRegistry_def)
  have u: "(if maxFramesMissing ?reg2 < framesMissing ?t + 1 \<or> maxFaceAge ?reg2 < 66 - lastSeen ?t
            then None else Some (?t\<lparr>framesMissing := framesMissing ?t + 1\<rparr>)) =
           Some (track_at 1 1 0.5 0.5 0.2 1 0 33)"
    unfolding cfg by (simp add: track_at_def)
  note inst = processDetections_empty_input [of "[None]" ?reg2 66 "Face 1" ?t]
  from inst n b have e: "processDetections ?reg2 66 [None] = (cleanup 66 ?reg2 [], [])"
    by blast
  from inst n b d m
  have "map_of (trackedFaces (fst (processDetections ?reg2 66 [None]))) (Face 1) =
      (if maxFramesMissing ?reg2 < framesMissing ?t + 1 \<or> maxFaceAge ?reg2 < 66 - lastSeen ?t
       then None else Some (?t\<lparr>framesMissing := framesMissing ?t + 1\<rparr>))"
    by blast
  then have f: "map_of (trackedFaces (fst (processDetections ?reg2 66 [None]))) (Face 1) =
      Some (track_at 1 1 0.5 0.5 0.2 1 0 33)"
    unfolding u .
  from processDetections_empty_input [of "[]" ?reg 33]
    processDetections_empty_input [of "[None]" ?reg 33] a b n e d m f
  show ?thesis
    by blast
qed


text \<open>
  Claim C3 as stated fails: a face seen in two calls is still tracked after a third call
  whose only detection has no center.
\<close>

theorem processDetections_all_discarded_counterexample:
  "newDetections [None] = []
   \<and> map fst (trackedFaces (fst (processDetections
        (run new_FaceRegistry [(0, [face_at 0.5 0.5 0.2]), (33, [face_at 0.5 0.5 0.2])])
        66 [None]))) = [Face 1]"
  by (simp add: eval_registry)


section \<open>Matching and creation\<close>

text \<open>
  Claim C4. The similarity of a detection and a tracked face is
  \<open>0.7 * max(0, 1 - distance / matchThreshold) + 0.3 * max(0, 1 - |sizeA - sizeB| / max(sizeA, sizeB))\<close>,
  with the Euclidean distance of the centers and \<open>matchThreshold = 0.15\<close> in every registry
  reached from a fresh one. The best match is a tracked face whose similarity is above
  \<open>0.6\<close> and is not exceeded by the similarity of any tracked face; there is none exactly
  when no similarity is above \<open>0.6\<close>. A matched detection overwrites the landmarks, center,
  size and rotation of that face, sets its \<open>framesMissing\<close> to \<open>0\<close> and its \<open>lastSeen\<close> to
  the clock, and is pushed with the key and the mask number of the face. The matching
  loop of a call takes this step for each detection, in the state the earlier ones left.
  For the call itself: \<open>processDetections\<close> returns one entry for each detection that has a
  center, and the entry at the position of a matched detection is the detection tagged
  with the key and the mask number of its best match; in the registry the call returns
  (keys distinct, \<open>maxFaceAge\<close> not negative, as in every registry reached from a fresh
  one) that face is tracked with the same mask number and first sighting, with
  \<open>framesMissing = 0\<close> and \<open>lastSeen\<close> the clock, and with exactly the update above when the
  detection is the last of the call.
\<close>

theorem matched_detection_updates_track:
  "matchThreshold (run new_FaceRegistry frames) = 0.15
   \<and> (matchThreshold reg \<noteq> 0 \<and> max (face_size d) (face_size t') \<noteq> 0 \<longrightarrow>
       calculateSimilarity reg d t' =
         Some (0.7 * max 0 (1 - sqrt ((px (center d) - px (center t')) * (px (center d) - px (center t'))
                                   + (py (center d) - py (center t')) * (py (center d) - py (center t')))
                              / matchThreshold reg)
             + 0.3 * max 0 (1 - \<bar>face_size d - face_size t'\<bar> / max (face_size d) (face_size t'))))
   \<and> (findBestMatch reg d = Some (fid, t, s) \<longrightarrow>
        (fid, t) \<in> set (trackedFaces reg) \<and> calculateSimilarity reg d t = Some s \<and> 0.6 < s
        \<and> (\<forall>e \<in> set (trackedFaces reg). \<forall>s'. calculateSimilarity reg d (snd e) = Some s' \<longrightarrow> s' \<le> s)
        \<and> matchStep now (reg, rs, ms) d =
            (reg\<lparr>trackedFaces :=
                   AList.update fid
                     (t\<lparr>landmarks := landmarks d, center := center d, face_size := face_size d,
                        rotation := rotation d, framesMissing := 0, lastSeen := now\<rparr>)
                     (trackedFaces reg)\<rparr>,
             rs @ [tag d fid (maskNumber t)], fid # ms)
        \<and> faceId (tag d fid (maskNumber t)) = fid
        \<and> maskNumber (tag d fid (maskNumber t)) = maskNumber t
        \<and> map_of (AList.update fid
                     (t\<lparr>landmarks := landmarks d, center := center d, face_size := face_size d,
                        rotation := rotation d, framesMissing := 0, lastSeen := now\<rparr>)
                     (trackedFaces reg)) fid =
            Some (t\<lparr>landmarks := landmarks d, center := center d, face_size := face_size d,
                    rotation := rotation d, framesMissing := 0, lastSeen := now\<rparr>))
   \<and> (findBestMatch reg d = None \<longrightarrow>
        (\<forall>e \<in> set (trackedFaces reg). \<forall>s'. calculateSimilarity reg d (snd e) = Some s' \<longrightarrow> s' \<le> 0.6))
   \<and> matchLoop now reg0 (ds @ [d]) = matchStep now (matchLoop now reg0 ds) d
   \<and> (cf \<noteq> [] \<and> newDetections cf = ds @ d # ds' \<and> matchLoop now reg0 ds = (reg, rs, ms)
        \<and> findBestMatch reg d = Some (fid, t, s) \<longrightarrow>
        length (snd (processDetections reg0 now cf)) = length (newDetections cf)
        \<and> snd (processDetections reg0 now cf) ! length ds = tag d fid (maskNumber t)
        \<and> (ids_ok reg0 \<and> 0 \<le> maxFaceAge reg0 \<longrightarrow>
             (\<exists>t2. map_of (trackedFaces (fst (processDetections reg0 now cf))) fid = Some t2
                 \<and> maskNumber t2 = maskNumber t \<and> firstSeen t2 = firstSeen t
                 \<and> framesMissing t2 = 0 \<and> lastSeen t2 = now
                 \<and> (ds' = [] \<longrightarrow>
                      t2 = t\<lparr>landmarks := landmarks d, center := center d,
                              face_size := face_size d, rotation := rotation d,
                              framesMissing := 0, lastSeen := now\<rparr>))))
   \<and> ids_ok (run new_FaceRegistry frames) \<and> maxFaceAge (run new_FaceRegistry frames) = 2000"
proof -
  have a: "matchThreshold (run new_FaceRegistry frames) = 0.15"
    by (simp add: run_config new_FaceRegistry_def)
  have b: "findBestMatch reg d = Some (fid, t, s) \<longrightarrow>
        (fid, t) \<in> set (trackedFaces reg) \<and> calculateSimilarity reg d t = Some s \<and> 0.6 < s
        \<and> (\<forall>e \<in> set (trackedFaces reg). \<forall>s'. calculateSimilarity reg d (snd e) = Some s' \<longrightarrow> s' \<le> s)"
    using findBestMatch_Some [of reg d fid t s] by (metis prod.collapse)
  have c: "findBestMatch reg d = Some (fid, t, s) \<longrightarrow>
        matchStep now (reg, rs, ms) d =
            (reg\<lparr>trackedFaces :=
                   AList.update fid
                     (t\<lparr>landmarks := landmarks d, center := center d, face_size := face_size d,
                        rotation := rotation d, framesMissing := 0, lastSeen := now\<rparr>)
                     (trackedFaces reg)\<rparr>,
             rs @ [tag d fid (maskNumber t)], fid # ms)"
    by (simp add: matchStep_match)
  have e: "faceId (tag d fid (maskNumber t)) = fid \<and> maskNumber (tag d fid (maskNumber t)) = maskNumber t"
    by (simp add: tag_def)
  have f: "map_of (AList.update fid v (trackedFaces reg)) fid = Some v" for v
    by (simp add: update_conv')
  have g: "findBestMatch reg d = None \<longrightarrow>
        (\<forall>e \<in> set (trackedFaces reg). \<forall>s'. calculateSimilarity reg d (snd e) = Some s' \<longrightarrow> s' \<le> 0.6)"
    using findBestMatch_None [of reg d] by (metis prod.collapse)
  have h: "(cf \<noteq> [] \<and> newDetections cf = ds @ d # ds' \<and> matchLoop now reg0 ds = (reg, rs, ms)
        \<and> findBestMatch reg d = Some (fid, t, s) \<longrightarrow>
        length (snd (processDetections reg0 now cf)) = length (newDetections cf)
        \<and> snd (processDetections reg0 now cf) ! length ds = tag d fid (maskNumber t)
        \<and> (ids_ok reg0 \<and> 0 \<le> maxFaceAge reg0 \<longrightarrow>
             (\<exists>t2. map_of (trackedFaces (fst (processDetections reg0 now cf))) fid = Some t2
                 \<and> maskNumber t2 = maskNumber t \<and> firstSeen t2 = firstSeen t
                 \<and> framesMissing t2 = 0 \<and> lastSeen t2 = now
                 \<and> (ds' = [] \<longrightarrow>
                      t2 = t\<lparr>landmarks := landmarks d, center := center d,
                              face_size := face_size d, rotation := rotation d,
                              framesMissing := 0, lastSeen := now\<rparr>))))"
  proof (intro impI, elim conjE)
    assume cf: "cf \<noteq> []" and nd: "newDetections cf = ds @ d # ds'"
      and lp: "matchLoop now reg0 ds = (reg, rs, ms)"
      and fm: "findBestMatch reg d = Some (fid, t, s)"
    let ?v = "t\<lparr>landmarks := landmarks d, center := center d, face_size := face_size d,
                rotation := rotation d, framesMissing := 0, lastSeen := now\<rparr>"
    have st: "matchStep now (reg, rs, ms) d =
        (reg\<lparr>trackedFaces := AList.update fid ?v (trackedFaces reg)\<rparr>,
         rs @ [tag d fid (maskNumber t)], fid # ms)"
      using fm by (simp add: matchStep_match)
    then have pushed: "fst (snd (matchStep now (reg, rs, ms) d)) = rs @ [tag d fid (maskNumber t)]"
      by simp
    have reg: "reg = fst (matchLoop now reg0 ds)"
      using lp by simp
    have kept: "\<exists>t2. map_of (trackedFaces (fst (processDetections reg0 now cf))) fid = Some t2
                 \<and> maskNumber t2 = maskNumber t \<and> firstSeen t2 = firstSeen t
                 \<and> framesMissing t2 = 0 \<and> lastSeen t2 = now
                 \<and> (ds' = [] \<longrightarrow> t2 = ?v)"
      if ok0: "ids_ok reg0" and age0: "0 \<le> maxFaceAge reg0"
    proof -
      have ok: "ids_ok reg"
        unfolding reg matchLoop_def by (rule loop_ids_ok [OF ok0])
      have age: "0 \<le> maxFaceAge reg"
        using age0 loop_config [of now reg0 "[]" "[]" ds] by (simp add: reg matchLoop_def)
      have l1: "map_of (trackedFaces (fst (matchStep now (reg, rs, ms) d))) fid = Some ?v"
        by (simp add: st update_conv')
      have m1: "fid \<in> set (snd (snd (matchStep now (reg, rs, ms) d)))
                \<or> 1 \<le> maxFramesMissing reg"
        by (simp add: st)
      have m2: "fid \<in> set (snd (snd (matchStep now (reg, rs, ms) d)))"
        by (simp add: st)
      from processDetections_keeps [OF cf nd lp ok age l1 _ _ m1] m2
      show ?thesis
        by auto
    qed
    from processDetections_entry_at [OF cf nd lp pushed] kept
    show "length (snd (processDetections reg0 now cf)) = length (newDetections cf)
        \<and> snd (processDetections reg0 now cf) ! length ds = tag d fid (maskNumber t)
        \<and> (ids_ok reg0 \<and> 0 \<le> maxFaceAge reg0 \<longrightarrow>
             (\<exists>t2. map_of (trackedFaces (fst (processDetections reg0 now cf))) fid = Some t2
                 \<and> maskNumber t2 = maskNumber t \<and> firstSeen t2 = firstSeen t
                 \<and> framesMissing t2 = 0 \<and> lastSeen t2 = now
                 \<and> (ds' = [] \<longrightarrow> t2 = ?v)))"
      by blast
  qed
  have r: "ids_ok (run new_FaceRegistry frames) \<and> maxFaceAge (run new_FaceRegistry frames) = 2000"
    using run_invariants [of new_FaceRegistry frames] new_FaceRegistry_ok
    by (simp add: run_config new_FaceRegistry_def)
  from a b c e f g calculateSimilarity_formula [of reg d t'] matchLoop_snoc [of now reg0 ds d] h r
  show ?thesis
    by blast
qed


theorem matched_detection_updates_track_witness:
  "trackedFaces (fst (processDetections new_FaceRegistry 0 [face_at 0.5 0.5 0.2])) =
     [(Face 1, track_at 1 1 0.5 0.5 0.2 1 0 0)]
   \<and> matchThreshold (fst (processDetections new_FaceRegistry 0 [face_at 0.5 0.5 0.2])) = 0.15
   \<and> calculateSimilarity (fst (processDetections new_FaceRegistry 0 [face_at 0.5 0.5 0.2]))
         (detection_at 0 0.51 0.5 0.2) (track_at 1 1 0.5 0.5 0.2 1 0 0) = Some (143 / 150)
   \<and> findBestMatch (fst (processDetections new_FaceRegistry 0 [face_at 0.5 0.5 0.2])) (detection_at 0 0.51 0.5 0.2) =
       Some (Face 1, track_at 1 1 0.5 0.5 0.2 1 0 0, 143 / 150)
   \<and> matchStep 33 (fst (processDetections new_FaceRegistry 0 [face_at 0.5 0.5 0.2]), [], []) (detection_at 0 0.51 0.5 0.2) =
       ((fst (processDetections new_FaceRegistry 0 [face_at 0.5 0.5 0.2]))
          \<lparr>trackedFaces := [(Face 1, track_at 1 1 0.51 0.5 0.2 0 0 33)]\<rparr>,
        [tag (detection_at 0 0.51 0.5 0.2) (Face 1) 1], [Face 1])
   \<and> calculateSimilarity (fst (processDetections new_FaceRegistry 0 [face_at 0.5 0.5 0.2]))
         (detection_at 0 0.9 0.5 0.2) (track_at 1 1 0.5 0.5 0.2 1 0 0) = Some 0.3
   \<and> findBestMatch (fst (processDetections new_FaceRegistry 0 [face_at 0.5 0.5 0.2])) (detection_at 0 0.9 0.5 0.2) = None
   \<and> [face_at 0.51 0.5 0.2] \<noteq> []
   \<and> newDetections [face_at 0.51 0.5 0.2] = [detection_at 0 0.51 0.5 0.2]
   \<and> ids_ok (fst (processDetections new_FaceRegistry 0 [face_at 0.5 0.5 0.2]))
   \<and> length (snd (processDetections (fst (processDetections new_FaceRegistry 0 [face_at 0.5 0.5 0.2]))
         33 [face_at 0.51 0.5 0.2])) = 1
   \<and> snd (processDetections (fst (processDetections new_FaceRegistry 0 [face_at 0.5 0.5 0.2]))
         33 [face_at 0.51 0.5 0.2]) ! 0 = tag (detection_at 0 0.51 0.5 0.2) (Face 1) 1
   \<and> map_of (trackedFaces (fst (processDetections
         (fst (processDetections new_FaceRegistry 0 [face_at 0.5 0.5 0.2])) 33 [face_at 0.51 0.5 0.2])))
         (Face 1) = Some (track_at 1 1 0.51 0.5 0.2 0 0 33)"
proof -
  let ?cf = "[face_at 0.51 0.5 0.2]"
  let ?reg = "fst (processDetections new_FaceRegistry 0 [face_at 0.5 0.5 0.2])"
  let ?t = "track_at 1 1 0.5 0.5 0.2 1 0 0"
  let ?d = "detection_at 0 0.51 0.5 0.2"
  let ?e = "detection_at 0 0.9 0.5 0.2"
  have tr: "trackedFaces ?reg = [(Face 1, ?t)]" and th: "matchThreshold ?reg = 0.15"
    by (simp_all add: eval_registry track_at_def)
  have s1: "calculateSimilarity ?reg ?d ?t = Some (143 / 150)"
    and s2: "calculateSimilarity ?reg ?e ?t = Some 0.3"
    by (simp_all add: processDetections_config new_FaceRegistry_def Let_def
        calculateSimilarity_def unit_score_def calculateDistance_level
        detection_at_def track_at_def)
  have m1: "findBestMatch ?reg ?d = Some (Face 1, ?t, 143 / 150)"
    unfolding findBestMatch_def tr findBestMatch_loop.simps s1 by simp
  have m2: "findBestMatch ?reg ?e = None"
    unfolding findBestMatch_def tr findBestMatch_loop.simps s2 by simp
  have u: "track_at 1 1 0.5 0.5 0.2 1 0 0
              \<lparr>landmarks := landmarks ?d, center := center ?d, face_size := face_size ?d,
               rotation := rotation ?d, framesMissing := 0, lastSeen := 33\<rparr> =
           track_at 1 1 0.51 0.5 0.2 0 0 33"
    by (simp add: track_at_def detection_at_def)
  have n1: "?cf \<noteq> []"
    by simp
  have n2: "newDetections ?cf = [?d]" and n2': "newDetections ?cf = [] @ ?d # []"
    by (simp_all add: newDetections_def List.map_filter_def toDetection_face_at detection_at_def)
  have n3: "matchLoop 33 ?reg [] = (?reg, [], [])"
    by (rule matchLoop_Nil)
  have n4: "ids_ok ?reg"
    by (rule processDetections_ids_ok [OF new_FaceRegistry_ok(1)])
  have n5: "0 \<le> maxFaceAge ?reg"
    by (simp add: processDetections_config new_FaceRegistry_def)
  note inst = matched_detection_updates_track
         [of "[(0, [face_at 0.5 0.5 0.2])]" ?reg ?d ?t "Face 1" ?t "143 / 150" 33 "[]" "[]"
             ?reg "[]" ?cf "[]"]
  from inst n1 n2' n3 m1
  have lk: "length (snd (processDetections ?reg 33 ?cf)) = length (newDetections ?cf)
      \<and> snd (processDetections ?reg 33 ?cf) ! length ([] :: detection list) =
          tag ?d (Face 1) (maskNumber ?t)"
    by blast
  then have e1: "length (snd (processDetections ?reg 33 ?cf)) = 1"
    and e2: "snd (processDetections ?reg 33 ?cf) ! 0 = tag ?d (Face 1) 1"
    unfolding n2 by (simp_all add: track_at_def)
  from inst n1 n2' n3 m1 n4 n5
  have "\<exists>t2. map_of (trackedFaces (fst (processDetections ?reg 33 ?cf))) (Face 1) = Some t2
      \<and> t2 = ?t\<lparr>landmarks := landmarks ?d, center := center ?d, face_size := face_size ?d,
                  rotation := rotation ?d, framesMissing := 0, lastSeen := 33\<rparr>"
    by blast
  then have e3: "map_of (trackedFaces (fst (processDetections ?reg 33 ?cf))) (Face 1) =
      Some (track_at 1 1 0.51 0.5 0.2 0 0 33)"
    unfolding u by blast
  from inst m1 have "matchStep 33 (?reg, [], []) ?d =
            (?reg\<lparr>trackedFaces :=
                   AList.update (Face 1)
                     (?t\<lparr>landmarks := landmarks ?d, center := center ?d, face_size := face_size ?d,
                        rotation := rotation ?d, framesMissing := 0, lastSeen := 33\<rparr>)
                     (trackedFaces ?reg)\<rparr>,
             [] @ [tag ?d (Face 1) (maskNumber ?t)], [Face 1])"
    by blast
  then have step: "matchStep 33 (?reg, [], []) ?d =
       (?reg\<lparr>trackedFaces := [(Face 1, track_at 1 1 0.51 0.5 0.2 0 0 33)]\<rparr>,
        [tag ?d (Face 1) 1], [Face 1])"
    unfolding tr u by (simp add: track_at_def)
  from tr th s1 m1 step s2 m2 n1 n2 n4 e1 e2 e3 show ?thesis
    by blast
qed


text \<open>
  Claim C5. A detection that matches no tracked face creates one: its key is built from
  the current counter value, which is above the number of every key in the map, and the
  counter is incremented; its mask number is the lowest number in \<open>[1, maxFaces]\<close> that no
  tracked face uses, and \<open>1\<close> when all of them are used; the entry pushed for the
  detection carries this key and this mask number. The matching loop of a call takes this
  step for each detection, in the state the earlier ones left; the keys of that state are
  distinct and below the counter (\<open>ids_ok\<close>), as they are in every registry reached from a
  fresh one. For the call itself: \<open>processDetections\<close> returns one entry for each detection
  that has a center, and the entry at the position of an unmatched detection is the
  detection tagged with the new key and mask number; in the registry the call returns
  (\<open>maxFaceAge\<close> not negative and \<open>maxFramesMissing\<close> at least \<open>1\<close>, as in every registry
  reached from a fresh one) the new face is tracked under that key with that mask number.
\<close>

theorem unmatched_detection_creates_track:
  assumes "ids_ok reg" and "findBestMatch reg d = None"
  shows "matchStep now (reg, rs, ms) d =
           (reg\<lparr>nextFaceId := nextFaceId reg + 1,
                trackedFaces := trackedFaces reg @
                  [(Face (nextFaceId reg),
                    \<lparr>landmarks = landmarks d, center = center d, face_size = face_size d,
                     rotation = rotation d, faceId = Face (nextFaceId reg),
                     maskNumber = getNextMaskNumber reg,
                     framesMissing = 0, firstSeen = now, lastSeen = now\<rparr>)]\<rparr>,
            rs @ [tag d (Face (nextFaceId reg)) (getNextMaskNumber reg)], ms)
       \<and> faceId (tag d (Face (nextFaceId reg)) (getNextMaskNumber reg)) = Face (nextFaceId reg)
       \<and> maskNumber (tag d (Face (nextFaceId reg)) (getNextMaskNumber reg)) = getNextMaskNumber reg
       \<and> (\<forall>k \<in> set (keys reg). face_number k < nextFaceId reg)
       \<and> ((\<exists>i. 1 \<le> i \<and> i \<le> maxFaces reg \<and> i \<notin> usedMasks reg) \<longrightarrow>
            1 \<le> getNextMaskNumber reg \<and> getNextMaskNumber reg \<le> maxFaces reg
            \<and> getNextMaskNumber reg \<notin> usedMasks reg
            \<and> (\<forall>j. 1 \<le> j \<and> j < getNextMaskNumber reg \<longrightarrow> j \<in> usedMasks reg))
       \<and> ((\<forall>i. 1 \<le> i \<and> i \<le> maxFaces reg \<longrightarrow> i \<in> usedMasks reg) \<longrightarrow>
            getNextMaskNumber reg = 1)
       \<and> matchLoop now reg0 (ds @ [d]) = matchStep now (matchLoop now reg0 ds) d
       \<and> ids_ok (run new_FaceRegistry frames)
       \<and> (ids_ok reg0 \<longrightarrow> ids_ok (fst (matchLoop now reg0 ds)))
       \<and> (cf \<noteq> [] \<and> newDetections cf = ds @ d # ds' \<and> matchLoop now reg0 ds = (reg, rs, ms) \<longrightarrow>
            length (snd (processDetections reg0 now cf)) = length (newDetections cf)
            \<and> snd (processDetections reg0 now cf) ! length ds =
                tag d (Face (nextFaceId reg)) (getNextMaskNumber reg)
            \<and> (0 \<le> maxFaceAge reg \<and> 1 \<le> maxFramesMissing reg \<longrightarrow>
                 (\<exists>t2. map_of (trackedFaces (fst (processDetections reg0 now cf)))
                          (Face (nextFaceId reg)) = Some t2
                     \<and> maskNumber t2 = getNextMaskNumber reg \<and> firstSeen t2 = now
                     \<and> lastSeen t2 = now \<and> framesMissing t2 \<le> 1)))
       \<and> maxFaceAge (run new_FaceRegistry frames) = 2000
       \<and> maxFramesMissing (run new_FaceRegistry frames) = 1"
proof -
  have inv: "ids_ok (run new_FaceRegistry frames)"
    using run_invariants [of new_FaceRegistry frames] new_FaceRegistry_ok by simp
  have loop: "ids_ok reg0 \<longrightarrow> ids_ok (fst (matchLoop now reg0 ds))"
    by (simp add: matchLoop_def loop_ids_ok)
  have step: "matchStep now (reg, rs, ms) d =
           (reg\<lparr>nextFaceId := nextFaceId reg + 1,
                trackedFaces := trackedFaces reg @
                  [(Face (nextFaceId reg),
                    \<lparr>landmarks = landmarks d, center = center d, face_size = face_size d,
                     rotation = rotation d, faceId = Face (nextFaceId reg),
                     maskNumber = getNextMaskNumber reg,
                     framesMissing = 0, firstSeen = now, lastSeen = now\<rparr>)]\<rparr>,
            rs @ [tag d (Face (nextFaceId reg)) (getNextMaskNumber reg)], ms)"
    using assms(2) fresh_key [OF assms(1)] by (simp add: matchStep_new update_fresh_append)
  have tags: "faceId (tag d (Face (nextFaceId reg)) (getNextMaskNumber reg)) = Face (nextFaceId reg)
       \<and> maskNumber (tag d (Face (nextFaceId reg)) (getNextMaskNumber reg)) = getNextMaskNumber reg"
    by (simp add: tag_def)
  have ids: "\<forall>k \<in> set (keys reg). face_number k < nextFaceId reg"
    using assms(1) by (simp add: ids_ok_def list_all_iff)
  have free: "(\<exists>i. 1 \<le> i \<and> i \<le> maxFaces reg \<and> i \<notin> usedMasks reg) \<longrightarrow>
            1 \<le> getNextMaskNumber reg \<and> getNextMaskNumber reg \<le> maxFaces reg
            \<and> getNextMaskNumber reg \<notin> usedMasks reg
            \<and> (\<forall>j. 1 \<le> j \<and> j < getNextMaskNumber reg \<longrightarrow> j \<in> usedMasks reg)"
    using getNextMaskNumber_free(1,3,4) getNextMaskNumber_lowest by blast
  have full: "(\<forall>i. 1 \<le> i \<and> i \<le> maxFaces reg \<longrightarrow> i \<in> usedMasks reg) \<longrightarrow>
            getNextMaskNumber reg = 1"
    using getNextMaskNumber_full by blast
  have link: "(cf \<noteq> [] \<and> newDetections cf = ds @ d # ds' \<and> matchLoop now reg0 ds = (reg, rs, ms) \<longrightarrow>
            length (snd (processDetections reg0 now cf)) = length (newDetections cf)
            \<and> snd (processDetections reg0 now cf) ! length ds =
                tag d (Face (nextFaceId reg)) (getNextMaskNumber reg)
            \<and> (0 \<le> maxFaceAge reg \<and> 1 \<le> maxFramesMissing reg \<longrightarrow>
                 (\<exists>t2. map_of (trackedFaces (fst (processDetections reg0 now cf)))
                          (Face (nextFaceId reg)) = Some t2
                     \<and> maskNumber t2 = getNextMaskNumber reg \<and> firstSeen t2 = now
                     \<and> lastSeen t2 = now \<and> framesMissing t2 \<le> 1)))"
  proof (intro impI, elim conjE)
    assume cf: "cf \<noteq> []" and nd: "newDetections cf = ds @ d # ds'"
      and lp: "matchLoop now reg0 ds = (reg, rs, ms)"
    let ?k = "Face (nextFaceId reg)"
    let ?v = "\<lparr>landmarks = landmarks d, center = center d, face_size = face_size d,
               rotation = rotation d, faceId = ?k, maskNumber = getNextMaskNumber reg,
               framesMissing = 0, firstSeen = now, lastSeen = now\<rparr>"
    from step have pushed: "fst (snd (matchStep now (reg, rs, ms) d)) =
        rs @ [tag d ?k (getNextMaskNumber reg)]"
      by simp
    have kept: "\<exists>t2. map_of (trackedFaces (fst (processDetections reg0 now cf))) ?k = Some t2
                     \<and> maskNumber t2 = getNextMaskNumber reg \<and> firstSeen t2 = now
                     \<and> lastSeen t2 = now \<and> framesMissing t2 \<le> 1"
      if age: "0 \<le> maxFaceAge reg" and miss: "1 \<le> maxFramesMissing reg"
    proof -
      have "map_of (trackedFaces reg) ?k = None"
        using fresh_key [OF assms(1)] by (simp add: map_of_eq_None_iff)
      then have l1: "map_of (trackedFaces (fst (matchStep now (reg, rs, ms) d))) ?k = Some ?v"
        by (simp add: step map_add_def)
      have m1: "?k \<in> set (snd (snd (matchStep now (reg, rs, ms) d))) \<or> 1 \<le> maxFramesMissing reg"
        using miss by simp
      from processDetections_keeps [OF cf nd lp assms(1) age l1 _ _ m1]
      show ?thesis
        by auto
    qed
    from processDetections_entry_at [OF cf nd lp pushed] kept
    show "length (snd (processDetections reg0 now cf)) = length (newDetections cf)
            \<and> snd (processDetections reg0 now cf) ! length ds =
                tag d (Face (nextFaceId reg)) (getNextMaskNumber reg)
            \<and> (0 \<le> maxFaceAge reg \<and> 1 \<le> maxFramesMissing reg \<longrightarrow>
                 (\<exists>t2. map_of (trackedFaces (fst (processDetections reg0 now cf)))
                          (Face (nextFaceId reg)) = Some t2
                     \<and> maskNumber t2 = getNextMaskNumber reg \<and> firstSeen t2 = now
                     \<and> lastSeen t2 = now \<and> framesMissing t2 \<le> 1))"
      by blast
  qed
  have cfg: "maxFaceAge (run new_FaceRegistry frames) = 2000
      \<and> maxFramesMissing (run new_FaceRegistry frames) = 1"
    by (simp add: run_config new_FaceRegistry_def)
  from step tags ids free full matchLoop_snoc [of now reg0 ds d] inv loop link cfg show ?thesis
    by blast
qed


theorem unmatched_detection_creates_track_witness:
  "ids_ok new_FaceRegistry
   \<and> findBestMatch new_FaceRegistry (detection_at 0 0.5 0.5 0.2) = None
   \<and> 1 \<notin> usedMasks new_FaceRegistry
   \<and> fst (snd (matchStep 0 (new_FaceRegistry, [], []) (detection_at 0 0.5 0.5 0.2))) =
        [tag (detection_at 0 0.5 0.5 0.2) (Face 1) 1]
   \<and> ids_ok (fst (processDetections new_FaceRegistry 0 five_faces))
   \<and> findBestMatch (fst (processDetections new_FaceRegistry 0 five_faces)) (detection_at 0 0.9 0.5 0.2) = None
   \<and> usedMasks (fst (processDetections new_FaceRegistry 0 five_faces)) = {1, 2, 3, 4, 5}
   \<and> fst (snd (matchStep 33 (fst (processDetections new_FaceRegistry 0 five_faces), [], [])
         (detection_at 0 0.9 0.5 0.2))) =
        [tag (detection_at 0 0.9 0.5 0.2) (Face 6) 1]
   \<and> [face_at 0.1 0.5 0.2, face_at 0.9 0.5 0.2] \<noteq> []
   \<and> newDetections [face_at 0.1 0.5 0.2, face_at 0.9 0.5 0.2] =
       [detection_at 0 0.1 0.5 0.2] @ detection_at 1 0.9 0.5 0.2 # []
   \<and> ids_ok (fst (matchLoop 0 new_FaceRegistry [detection_at 0 0.1 0.5 0.2]))
   \<and> findBestMatch (fst (matchLoop 0 new_FaceRegistry [detection_at 0 0.1 0.5 0.2]))
         (detection_at 1 0.9 0.5 0.2) = None
   \<and> length (snd (processDetections new_FaceRegistry 0 [face_at 0.1 0.5 0.2, face_at 0.9 0.5 0.2])) = 2
   \<and> snd (processDetections new_FaceRegistry 0 [face_at 0.1 0.5 0.2, face_at 0.9 0.5 0.2]) ! 1 =
       tag (detection_at 1 0.9 0.5 0.2) (Face 2) 2
   \<and> (\<exists>t2. map_of (trackedFaces (fst (processDetections new_FaceRegistry 0
                 [face_at 0.1 0.5 0.2, face_at 0.9 0.5 0.2]))) (Face 2) = Some t2
          \<and> maskNumber t2 = 2 \<and> firstSeen t2 = 0 \<and> lastSeen t2 = 0 \<and> framesMissing t2 \<le> 1)"
proof -
  let ?cf = "[face_at 0.1 0.5 0.2, face_at 0.9 0.5 0.2]"
  let ?da = "detection_at 0 0.1 0.5 0.2"
  let ?db = "detection_at 1 0.9 0.5 0.2"
  let ?L = "matchLoop 0 new_FaceRegistry [?da]"
  let ?d = "detection_at 0 0.5 0.5 0.2"
  let ?reg = "fst (processDetections new_FaceRegistry 0 five_faces)"
  let ?e = "detection_at 0 0.9 0.5 0.2"
  have a1: "ids_ok new_FaceRegistry"
    by (rule new_FaceRegistry_ok)
  have a2: "findBestMatch new_FaceRegistry ?d = None"
    by (simp add: findBestMatch_def new_FaceRegistry_def)
  have a3: "1 \<notin> usedMasks new_FaceRegistry" "maxFaces new_FaceRegistry = 5"
    "nextFaceId new_FaceRegistry = 1"
    by (simp_all add: usedMasks_def new_FaceRegistry_def)
  have g1: "getNextMaskNumber new_FaceRegistry = 1"
    using a3 by (simp add: getNextMaskNumber_5)
  have b1: "ids_ok ?reg"
    by (rule processDetections_ids_ok [OF a1])
  have b2: "findBestMatch ?reg ?e = None"
    by (simp add: eval_registry five_faces_def detection_at_def)
  have b3: "usedMasks ?reg = {1, 2, 3, 4, 5}" "maxFaces ?reg = 5" "nextFaceId ?reg = 6"
    by (simp_all add: eval_registry five_faces_def insert_commute)
  have b4: "\<forall>i. 1 \<le> i \<and> i \<le> maxFaces ?reg \<longrightarrow> i \<in> usedMasks ?reg"
    unfolding b3 by auto
  note i1 = unmatched_detection_creates_track [OF a1 a2, of 0 "[]" "[]"]
  note i2 = unmatched_detection_creates_track [OF b1 b2, of 33 "[]" "[]"]
  from i1 have "matchStep 0 (new_FaceRegistry, [], []) ?d =
      (new_FaceRegistry\<lparr>nextFaceId := nextFaceId new_FaceRegistry + 1,
         trackedFaces := trackedFaces new_FaceRegistry @
           [(Face (nextFaceId new_FaceRegistry),
             \<lparr>landmarks = landmarks ?d, center = center ?d, face_size = face_size ?d,
              rotation = rotation ?d, faceId = Face (nextFaceId new_FaceRegistry),
              maskNumber = getNextMaskNumber new_FaceRegistry,
              framesMissing = 0, firstSeen = 0, lastSeen = 0\<rparr>)]\<rparr>,
       [] @ [tag ?d (Face (nextFaceId new_FaceRegistry)) (getNextMaskNumber new_FaceRegistry)], [])"
    by blast
  then have o1: "fst (snd (matchStep 0 (new_FaceRegistry, [], []) ?d)) = [tag ?d (Face 1) 1]"
    unfolding a3 g1 by simp
  from i2 have "matchStep 33 (?reg, [], []) ?e =
      (?reg\<lparr>nextFaceId := nextFaceId ?reg + 1,
         trackedFaces := trackedFaces ?reg @
           [(Face (nextFaceId ?reg),
             \<lparr>landmarks = landmarks ?e, center = center ?e, face_size = face_size ?e,
              rotation = rotation ?e, faceId = Face (nextFaceId ?reg),
              maskNumber = getNextMaskNumber ?reg,
              framesMissing = 0, firstSeen = 33, lastSeen = 33\<rparr>)]\<rparr>,
       [] @ [tag ?e (Face (nextFaceId ?reg)) (getNextMaskNumber ?reg)], [])"
    by blast
  moreover from i2 b4 have g2: "getNextMaskNumber ?reg = 1"
    by blast
  ultimately have o2: "fst (snd (matchStep 33 (?reg, [], []) ?e)) = [tag ?e (Face 6) 1]"
    unfolding b3 g2 by simp
  have c1: "?cf \<noteq> []"
    by simp
  have c2: "newDetections ?cf = [?da] @ ?db # []"
    by (simp add: newDetections_def List.map_filter_def toDetection_face_at detection_at_def)
  have c3: "?L = (fst ?L, fst (snd ?L), snd (snd ?L))"
    by simp
  have c4: "ids_ok (fst ?L)"
    unfolding matchLoop_def by (rule loop_ids_ok [OF a1])
  have c5: "findBestMatch (fst ?L) ?db = None"
    by (simp add: eval_registry detection_at_def)
  have c6: "nextFaceId (fst ?L) = 2" "getNextMaskNumber (fst ?L) = 2"
    "0 \<le> maxFaceAge (fst ?L)" "1 \<le> maxFramesMissing (fst ?L)"
    by (simp_all add: eval_registry detection_at_def)
  have c7: "length (newDetections ?cf) = 2" "length [?da] = 1"
    unfolding c2 by simp_all
  note i3 = unmatched_detection_creates_track [OF c4 c5, of 0 "fst (snd ?L)" "snd (snd ?L)"
      new_FaceRegistry "[?da]" _ ?cf "[]"]
  from i3 c1 c2 c3
  have "length (snd (processDetections new_FaceRegistry 0 ?cf)) = length (newDetections ?cf)
      \<and> snd (processDetections new_FaceRegistry 0 ?cf) ! length [?da] =
          tag ?db (Face (nextFaceId (fst ?L))) (getNextMaskNumber (fst ?L))"
    by blast
  then have o3: "length (snd (processDetections new_FaceRegistry 0 ?cf)) = 2"
    and o4: "snd (processDetections new_FaceRegistry 0 ?cf) ! 1 = tag ?db (Face 2) 2"
    unfolding c6 c7 by simp_all
  from i3 c1 c2 c3 c6(3,4)
  have "\<exists>t2. map_of (trackedFaces (fst (processDetections new_FaceRegistry 0 ?cf)))
                (Face (nextFaceId (fst ?L))) = Some t2
          \<and> maskNumber t2 = getNextMaskNumber (fst ?L) \<and> firstSeen t2 = 0
          \<and> lastSeen t2 = 0 \<and> framesMissing t2 \<le> 1"
    by blast
  then have o5: "\<exists>t2. map_of (trackedFaces (fst (processDetections new_FaceRegistry 0 ?cf)))
                (Face 2) = Some t2
          \<and> maskNumber t2 = 2 \<and> firstSeen t2 = 0 \<and> lastSeen t2 = 0 \<and> framesMissing t2 \<le> 1"
    unfolding c6 .
  from a1 a2 a3(1) o1 b1 b2 b3(1) o2 c1 c2 c4 c5 o3 o4 o5 show ?thesis
    by blast
qed



text \<open>
  Claim C7. The search for the best match does not look at the faces already matched
  in the call: a step of the matching loop changes the registry and pushes its entry
  whatever \<open>matchedFaceIds\<close> holds. Two detections close to one tracked face are both
  pushed with its key and its mask number.
\<close>

theorem matching_is_not_exclusive:
  "fst (matchStep now (reg, rs, ms) d) = fst (matchStep now (reg, rs, ms') d)
   \<and> fst (snd (matchStep now (reg, rs, ms) d)) = fst (snd (matchStep now (reg, rs, ms') d))
   \<and> map (\<lambda>r. (faceId r, maskNumber r))
         (snd (processDetections (fst (processDetections new_FaceRegistry 0 [face_at 0.5 0.5 0.2]))
                33 [face_at 0.51 0.5 0.2, face_at 0.49 0.5 0.2])) =
       [(Face 1, 1), (Face 1, 1)]"
proof -
  have a: "fst (matchStep now (reg, rs, ms) d) = fst (matchStep now (reg, rs, ms') d)
     \<and> fst (snd (matchStep now (reg, rs, ms) d)) = fst (snd (matchStep now (reg, rs, ms') d))"
    by (cases rule: matchStep_cases [of reg d]) (simp_all add: matchStep_match matchStep_new)
  have b: "map (\<lambda>r. (faceId r, maskNumber r))
         (snd (processDetections (fst (processDetections new_FaceRegistry 0 [face_at 0.5 0.5 0.2]))
                33 [face_at 0.51 0.5 0.2, face_at 0.49 0.5 0.2])) =
       [(Face 1, 1), (Face 1, 1)]"
    by (simp add: eval_registry)
  from a b show ?thesis by blast
qed


section \<open>The mask numbers and the number of tracked faces\<close>

text \<open>
  Claim C1, as the code has it. In every registry reached from a fresh one the mask
  numbers of the tracked faces lie in \<open>[1, 5]\<close>, so at most five of them are distinct. No
  two tracked faces share a mask number as long as no call left its matching loop with
  more than \<open>maxFaces\<close> tracked faces, that is, as long as the fallback to mask \<open>1\<close> never
  handed out a number in use.
\<close>

theorem mask_numbers_in_range:
  "usedMasks (run new_FaceRegistry frames) \<subseteq> {1 .. 5}
   \<and> maxFaces (run new_FaceRegistry frames) = 5
   \<and> card (usedMasks (run new_FaceRegistry frames)) \<le> 5
   \<and> (within_capacity new_FaceRegistry frames \<longrightarrow> distinct (slots (run new_FaceRegistry frames)))"
proof -
  have inv: "ids_ok (run new_FaceRegistry frames)" "slots_ok (run new_FaceRegistry frames)"
    "maxFaces (run new_FaceRegistry frames) = 5"
    using run_invariants [of new_FaceRegistry frames] new_FaceRegistry_ok by simp_all
  from slots_ok_set [OF inv(2)] inv(3) have sub: "usedMasks (run new_FaceRegistry frames) \<subseteq> {1 .. 5}"
    by (simp add: usedMasks_slots)
  then have "card (usedMasks (run new_FaceRegistry frames)) \<le> card {1 .. 5::nat}"
    by (intro card_mono) auto
  then have c: "card (usedMasks (run new_FaceRegistry frames)) \<le> 5"
    by simp
  have d: "within_capacity new_FaceRegistry frames \<longrightarrow> distinct (slots (run new_FaceRegistry frames))"
    using run_distinct new_FaceRegistry_ok by blast
  from sub inv(3) c d show ?thesis by blast
qed

theorem mask_numbers_in_range_witness:
  "within_capacity new_FaceRegistry [(0, five_faces), (33, five_faces)]
   \<and> slots (run new_FaceRegistry [(0, five_faces), (33, five_faces)]) = [1, 2, 3, 4, 5]
   \<and> distinct (slots (run new_FaceRegistry [(0, five_faces), (33, five_faces)]))
   \<and> usedMasks (run new_FaceRegistry [(0, five_faces), (33, five_faces)]) \<subseteq> {1 .. 5}"
proof -
  have w: "within_capacity new_FaceRegistry [(0, five_faces), (33, five_faces)]"
    by (simp add: eval_registry five_faces_def)
  have s: "slots (run new_FaceRegistry [(0, five_faces), (33, five_faces)]) = [1, 2, 3, 4, 5]"
    by (simp add: eval_registry five_faces_def slots_def)
  from mask_numbers_in_range [of "[(0, five_faces), (33, five_faces)]"] w s show ?thesis
    by blast
qed

text \<open>
  Claim C1 as stated fails. Five faces are tracked; in the next call four of them are
  seen again and a new face appears. While the matching loop runs the fifth face still
  holds its mask number, so the new face falls back to mask \<open>1\<close>, which the first face
  holds.
\<close>

theorem mask_numbers_counterexample:
  "map (\<lambda>e. (fst e, maskNumber (snd e)))
     (trackedFaces (run new_FaceRegistry
       [(0, five_faces),
        (33, [face_at 0.1 0.5 0.2, face_at 0.26 0.5 0.2, face_at 0.42 0.5 0.2,
              face_at 0.58 0.5 0.2, face_at 0.9 0.5 0.2])])) =
     [(Face 1, 1), (Face 2, 2), (Face 3, 3), (Face 4, 4), (Face 6, 1)]"
  by (simp add: eval_registry five_faces_def)

text \<open>
  Claim C2, as the code has it. No detection is rejected: a call adds at most one tracked
  face for each detection that has a center, and the number of tracked faces is not
  bounded by \<open>maxFaces\<close>.
\<close>

theorem tracked_count_bound:
  "length (trackedFaces (fst (processDetections reg now cf)))
     \<le> length (trackedFaces reg) + length (newDetections cf)"
proof -
  have "length (trackedFaces (cleanup now (fst (matchLoop now reg (newDetections cf))) m))
          \<le> length (trackedFaces reg) + length (newDetections cf)" for m
    using loop_length_le [of now reg "[]" "[]" "newDetections cf"]
      cleanup_length [of now "fst (matchLoop now reg (newDetections cf))" m]
    by (simp add: matchLoop_def)
  then show ?thesis
    by (auto simp: processDetections_fst)
qed

text \<open>
  Claim C2 as stated fails: five faces seen in two calls are still tracked when a sixth
  face appears alone in the third call.
\<close>

theorem tracked_count_counterexample:
  "maxFaces (run new_FaceRegistry [(0, five_faces), (33, five_faces), (66, [face_at 0.9 0.5 0.2])]) = 5
   \<and> length (trackedFaces
        (run new_FaceRegistry [(0, five_faces), (33, five_faces), (66, [face_at 0.9 0.5 0.2])])) = 6"
  by (simp add: eval_registry five_faces_def)

section \<open>Expiry\<close>

text \<open>
  Claim C6, as the code has it. In a registry reached from a fresh one
  (\<open>maxFramesMissing = 1\<close>), a tracked face that no detection matches in
  \<open>maxFramesMissing + 1\<close> calls in a row is no longer tracked after them. In the call that
  removes a tracked face its mask number becomes free, and the next new face gets that
  number or a lower one, provided that no call so far left its matching loop with more
  than \<open>maxFaces\<close> tracked faces, so that no other face shares the number.
\<close>

theorem unmatched_track_expires:
  "maxFramesMissing (run new_FaceRegistry frames0) = 1
   \<and> (map_of (trackedFaces (run new_FaceRegistry frames0)) i = Some t
        \<and> unmatched_in i (run new_FaceRegistry frames0) frames
        \<and> length frames = maxFramesMissing (run new_FaceRegistry frames0) + 1 \<longrightarrow>
      i \<notin> set (keys (run (run new_FaceRegistry frames0) frames)))
   \<and> (map_of (trackedFaces (run new_FaceRegistry frames0)) i = Some t
        \<and> i \<notin> set (keys (fst (processDetections (run new_FaceRegistry frames0) now cf)))
        \<and> within_capacity new_FaceRegistry (frames0 @ [(now, cf)]) \<longrightarrow>
      maskNumber t \<notin> usedMasks (fst (processDetections (run new_FaceRegistry frames0) now cf))
      \<and> getNextMaskNumber (fst (processDetections (run new_FaceRegistry frames0) now cf))
           \<le> maskNumber t)"
proof -
  let ?reg = "run new_FaceRegistry frames0"
  have inv: "ids_ok ?reg" "slots_ok ?reg" "maxFramesMissing ?reg = 1"
    using run_invariants [of new_FaceRegistry frames0] new_FaceRegistry_ok
    by (simp_all add: new_FaceRegistry_def)
  have a: "map_of (trackedFaces ?reg) i = Some t \<and> unmatched_in i ?reg frames
        \<and> length frames = maxFramesMissing ?reg + 1 \<longrightarrow> i \<notin> set (keys (run ?reg frames))"
  proof (intro impI, elim conjE)
    assume h: "map_of (trackedFaces ?reg) i = Some t" "unmatched_in i ?reg frames"
      "length frames = maxFramesMissing ?reg + 1"
    then have "frames \<noteq> []" "maxFramesMissing ?reg < framesMissing t + length frames"
      by auto
    from expire [OF inv(1) h(1,2) this] show "i \<notin> set (keys (run ?reg frames))" .
  qed
  have b: "map_of (trackedFaces ?reg) i = Some t
        \<and> i \<notin> set (keys (fst (processDetections ?reg now cf)))
        \<and> within_capacity new_FaceRegistry (frames0 @ [(now, cf)]) \<longrightarrow>
      maskNumber t \<notin> usedMasks (fst (processDetections ?reg now cf))
      \<and> getNextMaskNumber (fst (processDetections ?reg now cf)) \<le> maskNumber t"
  proof (intro impI, elim conjE)
    assume h: "map_of (trackedFaces ?reg) i = Some t"
      "i \<notin> set (keys (fst (processDetections ?reg now cf)))"
      "within_capacity new_FaceRegistry (frames0 @ [(now, cf)])"
    from h(3) have w: "within_capacity new_FaceRegistry frames0"
      and c: "length (trackedFaces (fst (matchLoop now ?reg (newDetections cf)))) \<le> maxFaces ?reg"
      by (simp_all add: within_capacity_append)
    have d: "distinct (slots ?reg)"
      using run_distinct [OF _ _ _ w] new_FaceRegistry_ok by simp
    from slot_released [OF inv(1,2) d c h(1,2)]
    show "maskNumber t \<notin> usedMasks (fst (processDetections ?reg now cf))
      \<and> getNextMaskNumber (fst (processDetections ?reg now cf)) \<le> maskNumber t"
      by simp
  qed
  from inv(3) a b show ?thesis
    by blast
qed


theorem unmatched_track_expires_witness:
  "map_of (trackedFaces (run new_FaceRegistry [(0, [face_at 0.1 0.5 0.2]), (33, [face_at 0.1 0.5 0.2])]))
      (Face 1) = Some (track_at 1 1 0.1 0.5 0.2 0 0 33)
   \<and> unmatched_in (Face 1)
        (run new_FaceRegistry [(0, [face_at 0.1 0.5 0.2]), (33, [face_at 0.1 0.5 0.2])])
        [(66, [face_at 0.9 0.5 0.2]), (99, [face_at 0.9 0.5 0.2])]
   \<and> Face 1 \<notin> set (keys (run
        (run new_FaceRegistry [(0, [face_at 0.1 0.5 0.2]), (33, [face_at 0.1 0.5 0.2])])
        [(66, [face_at 0.9 0.5 0.2]), (99, [face_at 0.9 0.5 0.2])]))
   \<and> map_of (trackedFaces (run new_FaceRegistry
        [(0, [face_at 0.1 0.5 0.2]), (33, [face_at 0.1 0.5 0.2]), (66, [face_at 0.9 0.5 0.2])]))
      (Face 1) = Some (track_at 1 1 0.1 0.5 0.2 1 0 33)
   \<and> within_capacity new_FaceRegistry
        ([(0, [face_at 0.1 0.5 0.2]), (33, [face_at 0.1 0.5 0.2]), (66, [face_at 0.9 0.5 0.2])]
         @ [(99, [face_at 0.9 0.5 0.2])])
   \<and> 1 \<notin> usedMasks (fst (processDetections (run new_FaceRegistry
        [(0, [face_at 0.1 0.5 0.2]), (33, [face_at 0.1 0.5 0.2]), (66, [face_at 0.9 0.5 0.2])])
        99 [face_at 0.9 0.5 0.2]))
   \<and> getNextMaskNumber (fst (processDetections (run new_FaceRegistry
        [(0, [face_at 0.1 0.5 0.2]), (33, [face_at 0.1 0.5 0.2]), (66, [face_at 0.9 0.5 0.2])])
        99 [face_at 0.9 0.5 0.2])) \<le> 1"
proof -
  let ?f0 = "[(0, [face_at 0.1 0.5 0.2]), (33, [face_at 0.1 0.5 0.2])] :: frame list"
  let ?fs = "[(66, [face_at 0.9 0.5 0.2]), (99, [face_at 0.9 0.5 0.2])] :: frame list"
  let ?f1 = "[(0, [face_at 0.1 0.5 0.2]), (33, [face_at 0.1 0.5 0.2]), (66, [face_at 0.9 0.5 0.2])] :: frame list"
  let ?t = "track_at 1 1 0.1 0.5 0.2 0 0 33"
  let ?t1 = "track_at 1 1 0.1 0.5 0.2 1 0 33"
  let ?cf = "[face_at 0.9 0.5 0.2]"
  have a1: "map_of (trackedFaces (run new_FaceRegistry ?f0)) (Face 1) = Some ?t"
    by (simp add: eval_registry track_at_def)
  have a2: "unmatched_in (Face 1) (run new_FaceRegistry ?f0) ?fs"
    by (simp add: eval_registry)
  have a3: "length ?fs = maxFramesMissing (run new_FaceRegistry ?f0) + 1"
    by (simp add: processDetections_config new_FaceRegistry_def)
  have b1: "map_of (trackedFaces (run new_FaceRegistry ?f1)) (Face 1) = Some ?t1"
    by (simp add: eval_registry track_at_def)
  have b2: "Face 1 \<notin> set (keys (fst (processDetections (run new_FaceRegistry ?f1) 99 ?cf)))"
    by (simp add: eval_registry keys_def)
  have b3: "within_capacity new_FaceRegistry (?f1 @ [(99, ?cf)])"
    by (simp add: eval_registry)
  have m: "maskNumber ?t1 = 1"
    by (simp add: track_at_def)
  note inst1 = unmatched_track_expires [of ?f0 "Face 1" ?t ?fs 0 "[]"]
  note inst2 = unmatched_track_expires [of ?f1 "Face 1" ?t1 "[]" 99 ?cf]
  from inst1 a1 a2 a3 have c1: "Face 1 \<notin> set (keys (run (run new_FaceRegistry ?f0) ?fs))"
    by blast
  from inst2 b1 b2 b3
  have "maskNumber ?t1 \<notin> usedMasks (fst (processDetections (run new_FaceRegistry ?f1) 99 ?cf))
      \<and> getNextMaskNumber (fst (processDetections (run new_FaceRegistry ?f1) 99 ?cf)) \<le> maskNumber ?t1"
    by blast
  then have c2: "1 \<notin> usedMasks (fst (processDetections (run new_FaceRegistry ?f1) 99 ?cf))
      \<and> getNextMaskNumber (fst (processDetections (run new_FaceRegistry ?f1) 99 ?cf)) \<le> 1"
    unfolding m .
  from a1 a2 c1 b1 b3 c2 show ?thesis
    by blast
qed

text \<open>
  Claim C6 as stated fails. Five faces are tracked, with mask numbers \<open>1\<close> to \<open>5\<close>, when a
  sixth face appears alone and falls back to mask \<open>1\<close>. One call later the five faces are
  removed, the first one among them, and mask \<open>1\<close> is still held by the sixth face: the
  next new face would get mask \<open>2\<close>.
\<close>

theorem slot_still_held_counterexample:
  "map (\<lambda>e. (fst e, maskNumber (snd e), framesMissing (snd e)))
     (trackedFaces (run new_FaceRegistry [(0, five_faces), (33, five_faces)])) =
     [(Face 1, 1, 0), (Face 2, 2, 0), (Face 3, 3, 0), (Face 4, 4, 0), (Face 5, 5, 0)]
   \<and> unmatched_in (Face 1) (run new_FaceRegistry [(0, five_faces), (33, five_faces)])
        [(66, [face_at 0.9 0.5 0.2]), (99, [face_at 0.9 0.5 0.2])]
   \<and> map (\<lambda>e. (fst e, maskNumber (snd e)))
        (trackedFaces (run new_FaceRegistry
           [(0, five_faces), (33, five_faces),
            (66, [face_at 0.9 0.5 0.2]), (99, [face_at 0.9 0.5 0.2])])) = [(Face 6, 1)]
   \<and> getNextMaskNumber (run new_FaceRegistry
           [(0, five_faces), (33, five_faces),
            (66, [face_at 0.9 0.5 0.2]), (99, [face_at 0.9 0.5 0.2])]) = 2"
  by (simp add: eval_registry five_faces_def)

section \<open>Smoothing\<close>

text \<open>
  Claim C8. With a video and a canvas of non-zero dimensions, each of \<open>x\<close>, \<open>y\<close>,
  \<open>rotation\<close> and \<open>size\<close> of a tracked face is \<open>prev + (raw - prev) * 0.2\<close>, with \<open>prev\<close>
  the cached value of the same key, and the raw projected value when the cache has no
  entry for the key. When the raw value of a key is held at a target for \<open>N\<close> frames, the
  distance of the cached value to the target is the distance before these frames times
  \<open>(1 - 0.2) ^ N\<close>, over the reals.
\<close>

theorem smoothing_converges:
  assumes "0 < videoWidth g" and "0 < videoHeight g" and "rectHeight g \<noteq> 0"
  shows "smoothingFactor = 0.2 \<and> lerp a b t = a + (b - a) * t
   \<and> snd (smoothFaces g prev tracked) = map (smoothOne g prev) tracked
   \<and> (find (\<lambda>data. pose_faceId data = faceId f) prev = Some p \<longrightarrow>
        smoothOne g prev f =
          \<lparr>pose_faceId = faceId f,
           pose_x = pose_x p + (pose_x (rawPose g f) - pose_x p) * 0.2,
           pose_y = pose_y p + (pose_y (rawPose g f) - pose_y p) * 0.2,
           pose_rotation = pose_rotation p + (pose_rotation (rawPose g f) - pose_rotation p) * 0.2,
           pose_size = pose_size p + (pose_size (rawPose g f) - pose_size p) * 0.2,
           pose_maskNumber = maskNumber f\<rparr>)
   \<and> (find (\<lambda>data. pose_faceId data = faceId f) prev = None \<longrightarrow> smoothOne g prev f = rawPose g f)
   \<and> (find (\<lambda>d. pose_faceId d = i) prev = Some p0 \<and> list_all (held g i target) frames \<longrightarrow>
        (\<exists>pN. find (\<lambda>d. pose_faceId d = i) (smoothRun g prev frames) = Some pN
           \<and> \<bar>pose_x pN - pose_x target\<bar> = \<bar>pose_x p0 - pose_x target\<bar> * (1 - 0.2) ^ length frames
           \<and> \<bar>pose_y pN - pose_y target\<bar> = \<bar>pose_y p0 - pose_y target\<bar> * (1 - 0.2) ^ length frames
           \<and> \<bar>pose_rotation pN - pose_rotation target\<bar> =
               \<bar>pose_rotation p0 - pose_rotation target\<bar> * (1 - 0.2) ^ length frames
           \<and> \<bar>pose_size pN - pose_size target\<bar> =
               \<bar>pose_size p0 - pose_size target\<bar> * (1 - 0.2) ^ length frames))"
proof -
  have a: "smoothingFactor = 0.2 \<and> lerp a b t = a + (b - a) * t
      \<and> snd (smoothFaces g prev tracked) = map (smoothOne g prev) tracked"
    by (simp add: smoothingFactor_def lerp_def smoothFaces_def Let_def)
  have c: "find (\<lambda>d. pose_faceId d = i) prev = Some p0 \<and> list_all (held g i target) frames \<longrightarrow>
        (\<exists>pN. find (\<lambda>d. pose_faceId d = i) (smoothRun g prev frames) = Some pN
           \<and> \<bar>pose_x pN - pose_x target\<bar> = \<bar>pose_x p0 - pose_x target\<bar> * (1 - 0.2) ^ length frames
           \<and> \<bar>pose_y pN - pose_y target\<bar> = \<bar>pose_y p0 - pose_y target\<bar> * (1 - 0.2) ^ length frames
           \<and> \<bar>pose_rotation pN - pose_rotation target\<bar> =
               \<bar>pose_rotation p0 - pose_rotation target\<bar> * (1 - 0.2) ^ length frames
           \<and> \<bar>pose_size pN - pose_size target\<bar> =
               \<bar>pose_size p0 - pose_size target\<bar> * (1 - 0.2) ^ length frames)"
  proof (intro impI, elim conjE)
    assume h: "find (\<lambda>d. pose_faceId d = i) prev = Some p0" "list_all (held g i target) frames"
    from smoothRun_error [OF h] obtain pN where
      "find (\<lambda>d. pose_faceId d = i) (smoothRun g prev frames) = Some pN"
      "pose_x pN - pose_x target = (pose_x p0 - pose_x target) * (1 - smoothingFactor) ^ length frames"
      "pose_y pN - pose_y target = (pose_y p0 - pose_y target) * (1 - smoothingFactor) ^ length frames"
      "pose_rotation pN - pose_rotation target =
          (pose_rotation p0 - pose_rotation target) * (1 - smoothingFactor) ^ length frames"
      "pose_size pN - pose_size target =
          (pose_size p0 - pose_size target) * (1 - smoothingFactor) ^ length frames"
      by blast
    then show "\<exists>pN. find (\<lambda>d. pose_faceId d = i) (smoothRun g prev frames) = Some pN
           \<and> \<bar>pose_x pN - pose_x target\<bar> = \<bar>pose_x p0 - pose_x target\<bar> * (1 - 0.2) ^ length frames
           \<and> \<bar>pose_y pN - pose_y target\<bar> = \<bar>pose_y p0 - pose_y target\<bar> * (1 - 0.2) ^ length frames
           \<and> \<bar>pose_rotation pN - pose_rotation target\<bar> =
               \<bar>pose_rotation p0 - pose_rotation target\<bar> * (1 - 0.2) ^ length frames
           \<and> \<bar>pose_size pN - pose_size target\<bar> =
               \<bar>pose_size p0 - pose_size target\<bar> * (1 - 0.2) ^ length frames"
      using abs_error by blast
  qed
  from a c smoothOne_cached [of f prev p g] smoothOne_first [of f prev g] show ?thesis
    by blast
qed

theorem smoothing_converges_witness:
  "0 < videoWidth hd_geometry \<and> 0 < videoHeight hd_geometry \<and> rectHeight hd_geometry \<noteq> 0
   \<and> find (\<lambda>d. pose_faceId d = Face 1) [start_pose] = Some start_pose
   \<and> list_all (held hd_geometry (Face 1) target_pose) [[centered], [centered]]
   \<and> find (\<lambda>d. pose_faceId d = Face 1) (smoothRun hd_geometry [start_pose] [[centered], [centered]]) =
       Some \<lparr>pose_faceId = Face 1, pose_x = 345.6, pose_y = 194.4, pose_rotation = 6.4,
             pose_size = 258.4\<rparr>
   \<and> (\<exists>pN. find (\<lambda>d. pose_faceId d = Face 1)
               (smoothRun hd_geometry [start_pose] [[centered], [centered]]) = Some pN
          \<and> \<bar>pose_x pN - pose_x target_pose\<bar> =
              \<bar>pose_x start_pose - pose_x target_pose\<bar> * (1 - 0.2) ^ length [[centered], [centered]]
          \<and> \<bar>pose_y pN - pose_y target_pose\<bar> =
              \<bar>pose_y start_pose - pose_y target_pose\<bar> * (1 - 0.2) ^ length [[centered], [centered]]
          \<and> \<bar>pose_rotation pN - pose_rotation target_pose\<bar> =
              \<bar>pose_rotation start_pose - pose_rotation target_pose\<bar>
                * (1 - 0.2) ^ length [[centered], [centered]]
          \<and> \<bar>pose_size pN - pose_size target_pose\<bar> =
              \<bar>pose_size start_pose - pose_size target_pose\<bar>
                * (1 - 0.2) ^ length [[centered], [centered]])"
proof -
  have g: "0 < videoWidth hd_geometry" "0 < videoHeight hd_geometry" "rectHeight hd_geometry \<noteq> 0"
    by (simp_all add: hd_geometry_def)
  have raw: "rawPose hd_geometry centered =
      \<lparr>pose_faceId = Face 1, pose_x = 960, pose_y = 540, pose_rotation = 0, pose_size = 540,
       pose_maskNumber = 1\<rparr>"
    by (simp add: rawPose_def displayed_def hd_geometry_def centered_def tag_def detection_at_def
        Let_def)
  have id: "faceId centered = Face 1"
    by (simp add: centered_def tag_def)
  have f: "find (\<lambda>d. pose_faceId d = Face 1) [start_pose] = Some start_pose"
    by (simp add: start_pose_def)
  have h: "list_all (held hd_geometry (Face 1) target_pose) [[centered], [centered]]"
    by (simp add: held_def id raw toPrev_def target_pose_def)
  have ev: "find (\<lambda>d. pose_faceId d = Face 1) (smoothRun hd_geometry [start_pose] [[centered], [centered]]) =
       Some \<lparr>pose_faceId = Face 1, pose_x = 345.6, pose_y = 194.4, pose_rotation = 6.4,
             pose_size = 258.4\<rparr>"
    by (simp add: smoothFaces_def smoothOne_def id raw toPrev_def start_pose_def lerp_def
        smoothingFactor_def Let_def)
  from smoothing_converges [OF g, of 0 0 0 "[start_pose]" "[]" centered start_pose "Face 1"
      start_pose target_pose "[[centered], [centered]]"] f h
  have "\<exists>pN. find (\<lambda>d. pose_faceId d = Face 1)
               (smoothRun hd_geometry [start_pose] [[centered], [centered]]) = Some pN
          \<and> \<bar>pose_x pN - pose_x target_pose\<bar> =
              \<bar>pose_x start_pose - pose_x target_pose\<bar> * (1 - 0.2) ^ length [[centered], [centered]]
          \<and> \<bar>pose_y pN - pose_y target_pose\<bar> =
              \<bar>pose_y start_pose - pose_y target_pose\<bar> * (1 - 0.2) ^ length [[centered], [centered]]
          \<and> \<bar>pose_rotation pN - pose_rotation target_pose\<bar> =
              \<bar>pose_rotation start_pose - pose_rotation target_pose\<bar>
                * (1 - 0.2) ^ length [[centered], [centered]]
          \<and> \<bar>pose_size pN - pose_size target_pose\<bar> =
              \<bar>pose_size start_pose - pose_size target_pose\<bar>
                * (1 - 0.2) ^ length [[centered], [centered]]"
    by blast
  with g f h ev show ?thesis
    by blast
qed


end
